theory Spec2Isabelle
  imports Complex_Main
begin

section \<open>Data model of the Krinkle generator (src/app.js)\<close>

text \<open>
  JavaScript numbers are modelled as follows: the integer parameters \<open>m\<close>, \<open>k\<close>,
  \<open>n\<close>, \<open>rows\<close>, the direction indices and the tile indices are natural numbers
  (the remainder operator \<open>%\<close> on them is \<open>mod\<close>); coordinates, angles and
  \<open>w_limit\<close> are real numbers, so rounding of IEEE doubles is outside the model.
  A point \<open>{x, y}\<close> is a pair.
\<close>

type_synonym point = "real \<times> real"

text \<open>
  Fill colours are strings in the source. \<open>Rgba_proto\<close> is \<open>'rgba(88, 166, 255, 0.4)'\<close>,
  \<open>Hsla_gray l\<close> is \<open>hsla(0, 0%, l%, 0.6)\<close>, \<open>Hsla_rainbow h\<close> is
  \<open>hsla(h, 70%, 60%, 0.6)\<close>, and \<open>Undefined_color\<close> is the \<open>undefined\<close> that an
  out-of-range read of the palette array gives.
\<close>

datatype color = Rgba_proto | Hsla_gray int | Hsla_rainbow int | Undefined_color

text \<open>
  The \<open>meta\<close> object of a polygon. A key that the object does not have is \<open>None\<close>.
  The prototile carries \<open>closureError\<close> and \<open>hasShortPeriod\<close>; a wedge tile carries
  \<open>wedgeIndex\<close>, \<open>tileIndex\<close>, \<open>r\<close>, \<open>c\<close>; a reflected copy also \<open>isCopy\<close>.
\<close>

record tile_meta =
  closureError :: "real option"
  hasShortPeriod :: "bool option"
  wedgeIndex :: "nat option"
  tileIndex :: "nat option"
  meta_r :: "nat option"
  meta_c :: "nat option"
  isCopy :: "bool option"

definition empty_meta :: tile_meta where
  "empty_meta = \<lparr>closureError = None, hasShortPeriod = None, wedgeIndex = None,
     tileIndex = None, meta_r = None, meta_c = None, isCopy = None\<rparr>"

record polygon =
  path :: "point list"
  color :: color
  stroke :: string
  meta :: tile_meta

text \<open>\<open>this.currentParams\<close>: the constructor sets all three to 0 (unset).\<close>

record params =
  par_m :: nat
  par_k :: nat
  par_n :: nat

text \<open>
  What \<open>console.error\<close> and \<open>console.warn\<close> print; \<open>console.log\<close> lines are not
  recorded.
\<close>

datatype log_event = Parameter_error | Direction_not_found nat

text \<open>
  The fields of a \<open>KrinkleGenerator\<close> object, together with the console output so far.
\<close>

record gen_state =
  polygons :: "polygon list"
  palette :: "color list"
  paletteType :: string
  currentParams :: params
  console :: "log_event list"

text \<open>The state the constructor builds.\<close>

definition initial_state :: gen_state where
  "initial_state = \<lparr>polygons = [], palette = [], paletteType = ''color'',
     currentParams = \<lparr>par_m = 0, par_k = 0, par_n = 0\<rparr>, console = []\<rparr>"

subsection \<open>The global configuration \<open>TILING_CONFIG\<close>\<close>

record wedge_rule =
  reverse :: "bool option"
  startColor :: "nat option"

record cfg_params =
  cfg_c :: nat
  cfg_m :: nat
  cfg_k :: nat
  cfg_n :: nat

text \<open>
  One element of \<open>config.wedges\<close>: an optional \<open>params\<close> key and the rules under
  the numeric keys.
\<close>

record wedge_item =
  item_params :: "cfg_params option"
  item_rules :: "(nat \<times> wedge_rule) list"

record tiling_config =
  colorCount :: nat
  wedges :: "wedge_item list"

definition rule :: "bool \<Rightarrow> nat \<Rightarrow> wedge_rule" where
  "rule b sc = \<lparr>reverse = Some b, startColor = Some sc\<rparr>"

definition TILING_CONFIG :: tiling_config where
  "TILING_CONFIG = \<lparr>colorCount = 3, wedges = [\<lparr>
     item_params = Some \<lparr>cfg_c = 3, cfg_m = 3, cfg_k = 7, cfg_n = 14\<rparr>,
     item_rules = [(0, rule False 0), (1, rule True 1), (2, rule False 2), (3, rule True 1),
       (4, rule False 0), (5, rule True 2), (6, rule False 0), (7, rule True 2),
       (8, rule False 1), (9, rule True 0), (10, rule False 1), (11, rule True 2),
       (12, rule False 0), (13, rule True 2)]\<rparr>]\<rparr>"

section \<open>generatePalette\<close>

text \<open>
  One palette entry, for index \<open>i\<close> of \<open>count\<close>. The test \<open>type === 'gray'\<close>
  sends every other type to the rainbow branch.
\<close>

definition palette_entry :: "nat \<Rightarrow> string \<Rightarrow> nat \<Rightarrow> color" where
  "palette_entry count type i =
     (if type = ''gray'' then
        (let minL = (25::real); maxL = (80::real); range = maxL - minL;
             step = (if count > 1 then range / (real count - 1) else 0);
             l = minL + step * real i
         in Hsla_gray \<lfloor>l\<rfloor>)
      else
        (let hue = \<lfloor>(360 / real count) * real i\<rfloor> in Hsla_rainbow hue))"

text \<open>
  \<open>generatePalette(count, type)\<close>: a missing argument (\<open>None\<close>) falls back to the
  configured colour count and to the stored palette type.
\<close>

definition generatePalette ::
  "tiling_config \<Rightarrow> nat option \<Rightarrow> string option \<Rightarrow> gen_state \<Rightarrow> gen_state" where
  "generatePalette config count_arg type_arg s =
     (let count = (case count_arg of None \<Rightarrow> colorCount config | Some cnt \<Rightarrow> cnt);
          type = (case type_arg of None \<Rightarrow> paletteType s | Some t \<Rightarrow> t)
      in s\<lparr>paletteType := type, palette := map (palette_entry count type) [0..<count]\<rparr>)"

text \<open>\<open>this.palette[i]\<close>: \<open>undefined\<close> out of range.\<close>

definition palette_at :: "color list \<Rightarrow> nat \<Rightarrow> color" where
  "palette_at pal i = (if i < length pal then pal ! i else Undefined_color)"

section \<open>getColorIndex\<close>

definition empty_rule :: wedge_rule where
  "empty_rule = \<lparr>reverse = None, startColor = None\<rparr>"

text \<open>
  The search through \<open>config.wedges\<close>: the first item whose \<open>params\<close> equal the
  current colour count and parameters decides, and the loop breaks there;
  \<open>item[wedgeIndex] || {}\<close> is the empty rule when the item has no such key.
\<close>

fun find_wedgeConfig :: "wedge_item list \<Rightarrow> nat \<Rightarrow> params \<Rightarrow> nat \<Rightarrow> wedge_rule" where
  "find_wedgeConfig [] count p wi = empty_rule"
| "find_wedgeConfig (item # rest) count p wi =
     (case item_params item of
        None \<Rightarrow> find_wedgeConfig rest count p wi
      | Some ip \<Rightarrow>
          if cfg_c ip = count \<and> cfg_m ip = par_m p \<and> cfg_k ip = par_k p \<and> cfg_n ip = par_n p
          then (case map_of (item_rules item) wi of None \<Rightarrow> empty_rule | Some rl \<Rightarrow> rl)
          else find_wedgeConfig rest count p wi)"

text \<open>
  \<open>getColorIndex(r, c, wedgeIndex)\<close>, reading \<open>TILING_CONFIG\<close> and
  \<open>this.currentParams\<close>. For \<open>colorCount = 0\<close> the source computes \<open>NaN\<close>; the
  palette is empty then, so the colour read with the index is \<open>undefined\<close> in the source
  and in the model.
\<close>

definition getColorIndex :: "tiling_config \<Rightarrow> params \<Rightarrow> nat \<Rightarrow> nat \<Rightarrow> nat \<Rightarrow> nat" where
  "getColorIndex config p r c wi =
     (let count = colorCount config in
      if par_m p = 0 \<or> par_k p = 0 \<or> par_n p = 0 then wi mod count
      else
        (let wedgeConfig = find_wedgeConfig (wedges config) (colorCount config) p wi;
             rev_flag = (case reverse wedgeConfig of Some b \<Rightarrow> b | None \<Rightarrow> wi mod 2 \<noteq> 0);
             start = (case startColor wedgeConfig of Some sc \<Rightarrow> sc | None \<Rightarrow> wi mod count);
             baseIndex = (if rev_flag then (count - ((r + c) mod count)) mod count
                          else (r + c) mod count)
         in (baseIndex + start) mod count))"

section \<open>generatePrototile\<close>

text \<open>
  The loop that fills \<open>l_seq\<close>, from counter \<open>j\<close>, with the array built so far and the
  flag \<open>hasShortPeriod\<close>; the \<open>break\<close> leaves the loop with the flag set.
\<close>

function l_seq_loop :: "nat \<Rightarrow> nat \<Rightarrow> nat \<Rightarrow> nat list \<times> bool \<Rightarrow> nat list \<times> bool" where
  "l_seq_loop m k j (acc, hsp) =
     (if j < k then
        (if j > 0 \<and> (j * m) mod k = 0 then (acc, True)
         else l_seq_loop m k (j + 1) (acc @ [(j * m) mod k], hsp))
      else (acc, hsp))"
  by pat_completeness auto
termination
  by (relation "measure (\<lambda>(m, k, j, st). k - j)") auto

declare l_seq_loop.simps [simp del]

text \<open>The loop that fills \<open>u_seq\<close>; it starts at \<open>j = 1\<close> and has no test \<open>j > 0\<close>.\<close>

function u_seq_loop :: "nat \<Rightarrow> nat \<Rightarrow> nat \<Rightarrow> nat list \<times> bool \<Rightarrow> nat list \<times> bool" where
  "u_seq_loop m k j (acc, hsp) =
     (if j < k then
        (if (j * m) mod k = 0 then (acc, True)
         else u_seq_loop m k (j + 1) (acc @ [(j * m) mod k], hsp))
      else (acc, hsp))"
  by pat_completeness auto
termination
  by (relation "measure (\<lambda>(m, k, j, st). k - j)") auto

declare u_seq_loop.simps [simp del]

text \<open>
  The sequences and the flag as \<open>generatePrototile\<close> builds them: \<open>l_seq\<close>, then
  \<open>u_seq\<close>, the flag shared by the two loops.
\<close>

definition build_sequences :: "nat \<Rightarrow> nat \<Rightarrow> nat list \<times> nat list \<times> bool" where
  "build_sequences m k =
     (let (l_body, hsp1) = l_seq_loop m k 0 ([], False);
          l_seq = l_body @ [k];
          (u_body, hsp2) = u_seq_loop m k 1 ([k], hsp1);
          u_seq = u_body @ [0]
      in (l_seq, u_seq, hsp2))"

text \<open>
  \<open>getVector(dirIndex)\<close>, with the \<open>n\<close> it closes over. For \<open>n = 0\<close> the source
  divides by zero (the angle is \<open>NaN\<close> or infinite); the model is meant for \<open>n > 0\<close>.
\<close>

definition getVector :: "nat \<Rightarrow> nat \<Rightarrow> point" where
  "getVector n dirIndex =
     (let angle = (real dirIndex * 2 * pi) / real n; len = 100
      in (cos angle * len, sin angle * len))"

text \<open>Forward along \<open>l_seq\<close>: each step adds a vector and pushes the new position.\<close>

fun walk_forward :: "nat \<Rightarrow> nat list \<Rightarrow> point \<times> point list \<Rightarrow> point \<times> point list" where
  "walk_forward n [] st = st"
| "walk_forward n (d # ds) (current, pth) =
     (let v = getVector n d;
          current' = (fst current + fst v, snd current + snd v)
      in walk_forward n ds (current', pth @ [current']))"

text \<open>Backward along the reversed \<open>u_seq\<close>: each step subtracts a vector.\<close>

fun walk_backward :: "nat \<Rightarrow> nat list \<Rightarrow> point \<times> point list \<Rightarrow> point \<times> point list" where
  "walk_backward n [] st = st"
| "walk_backward n (d # ds) (current, pth) =
     (let v = getVector n d;
          current' = (fst current - fst v, snd current - snd v)
      in walk_backward n ds (current', pth @ [current']))"

text \<open>\<open>Math.hypot(x, y)\<close>.\<close>

definition hypot :: "real \<Rightarrow> real \<Rightarrow> real" where
  "hypot x y = sqrt (x * x + y * y)"

text \<open>
  The position after the two walks and the path, as \<open>generatePrototile\<close> computes
  them from the sequences.
\<close>

definition prototile_walk :: "nat \<Rightarrow> nat \<Rightarrow> nat \<Rightarrow> point \<times> point list" where
  "prototile_walk m k n =
     (let (l_seq, u_seq, hsp) = build_sequences m k;
          st0 = ((0, 0), [(0, 0)]);
          st1 = walk_forward n l_seq st0;
          u_seq_rev = rev u_seq
      in walk_backward n u_seq_rev st1)"

text \<open>
  \<open>generatePrototile(m, k, n)\<close>: the result is \<open>this.polygons\<close>. The test \<open>n < k\<close>
  stands twice in the source; each prints the error and goes on.
\<close>

definition generatePrototile ::
  "nat \<Rightarrow> nat \<Rightarrow> nat \<Rightarrow> gen_state \<Rightarrow> polygon list \<times> gen_state" where
  "generatePrototile m k n s =
     (let s1 = s\<lparr>polygons := []\<rparr>;
          s2 = (if n < k then s1\<lparr>console := console s1 @ [Parameter_error]\<rparr> else s1);
          s3 = (if n < k then s2\<lparr>console := console s2 @ [Parameter_error]\<rparr> else s2);
          (l_seq, u_seq, hsp) = build_sequences m k;
          (current, pth) = prototile_walk m k n;
          closureErr = hypot (fst current) (snd current);
          poly = \<lparr>path = pth, color = Rgba_proto, stroke = ''#58a6ff'',
                  meta = empty_meta\<lparr>closureError := Some closureErr,
                                      hasShortPeriod := Some hsp\<rparr>\<rparr>;
          s4 = s3\<lparr>polygons := polygons s3 @ [poly]\<rparr>
      in (polygons s4, s4))"

section \<open>generateWedge\<close>

text \<open>
  The loop that sums \<open>d0\<close>: it reads \<open>l_seq[j]\<close> for the counters the first loop
  pushed an entry for, and breaks where that loop broke.
\<close>

function d0_loop :: "nat \<Rightarrow> nat \<Rightarrow> nat \<Rightarrow> nat list \<Rightarrow> nat \<Rightarrow> point \<Rightarrow> point" where
  "d0_loop m k n l_seq j d0 =
     (if j < k then
        (if j > 0 \<and> (j * m) mod k = 0 then d0
         else (let v = getVector n (l_seq ! j)
               in d0_loop m k n l_seq (j + 1) (fst d0 + fst v, snd d0 + snd v)))
      else d0)"
  by pat_completeness auto
termination
  by (relation "measure (\<lambda>(m, k, n, l_seq, j, d0). k - j)") auto

declare d0_loop.simps [simp del]

text \<open>The tile pushed for row \<open>r\<close> and column \<open>c\<close>, with the running \<open>tileIndex\<close>.\<close>

definition wedge_tile ::
  "tiling_config \<Rightarrow> polygon \<Rightarrow> point \<Rightarrow> point \<Rightarrow> nat \<Rightarrow> nat \<Rightarrow> nat \<Rightarrow> gen_state \<Rightarrow> polygon" where
  "wedge_tile config basePoly d0 d1 r c tIndex s =
     (let shiftX = real r * fst d0 + real c * fst d1;
          shiftY = real r * snd d0 + real c * snd d1;
          newPath = map (\<lambda>p. (fst p + shiftX, snd p + shiftY)) (path basePoly);
          colorIdx = getColorIndex config (currentParams s) r c 0
      in \<lparr>path = newPath, color = palette_at (palette s) colorIdx, stroke = ''#888'',
          meta = empty_meta\<lparr>wedgeIndex := Some 0, tileIndex := Some tIndex,
                             meta_r := Some r, meta_c := Some c\<rparr>\<rparr>)"

text \<open>The inner loop over the columns \<open>c \<le> r\<close>, with the state and \<open>tileIndex\<close>.\<close>

function cols_loop ::
  "tiling_config \<Rightarrow> polygon \<Rightarrow> point \<Rightarrow> point \<Rightarrow> nat \<Rightarrow> nat \<Rightarrow> gen_state \<times> nat \<Rightarrow> gen_state \<times> nat" where
  "cols_loop config basePoly d0 d1 r c (s, tIndex) =
     (if c \<le> r then
        cols_loop config basePoly d0 d1 r (c + 1)
          (s\<lparr>polygons := polygons s @ [wedge_tile config basePoly d0 d1 r c tIndex s]\<rparr>,
           tIndex + 1)
      else (s, tIndex))"
  by pat_completeness auto
termination
  by (relation "measure (\<lambda>(config, basePoly, d0, d1, r, c, st). r + 1 - c)") auto

declare cols_loop.simps [simp del]

text \<open>The outer loop over the rows \<open>r < rows\<close>.\<close>

function rows_loop ::
  "tiling_config \<Rightarrow> polygon \<Rightarrow> point \<Rightarrow> point \<Rightarrow> nat \<Rightarrow> nat \<Rightarrow> gen_state \<times> nat \<Rightarrow> gen_state \<times> nat" where
  "rows_loop config basePoly d0 d1 rows r st =
     (if r < rows then
        rows_loop config basePoly d0 d1 rows (r + 1) (cols_loop config basePoly d0 d1 r 0 st)
      else st)"
  by pat_completeness auto
termination
  by (relation "measure (\<lambda>(config, basePoly, d0, d1, rows, r, st). rows - r)") auto

declare rows_loop.simps [simp del]

text \<open>The shift vectors \<open>d0\<close> and \<open>d1\<close> as \<open>generateWedge\<close> computes them.\<close>

definition wedge_d0 :: "nat \<Rightarrow> nat \<Rightarrow> nat \<Rightarrow> point" where
  "wedge_d0 m k n =
     (let (l_body, hsp) = l_seq_loop m k 0 ([], False);
          l_seq = l_body @ [k]
      in d0_loop m k n l_seq 0 (0, 0))"

definition wedge_d1 :: "nat \<Rightarrow> nat \<Rightarrow> point" where
  "wedge_d1 k n =
     (let vk = getVector n k; v0 = getVector n 0
      in (fst vk - fst v0, snd vk - snd v0))"

text \<open>
  \<open>generateWedge(m, k, n, rows)\<close>. The early return hands the prototile list on when
  it is empty or its polygon has an empty path.
\<close>

definition generateWedge ::
  "tiling_config \<Rightarrow> nat \<Rightarrow> nat \<Rightarrow> nat \<Rightarrow> nat \<Rightarrow> gen_state \<Rightarrow> polygon list \<times> gen_state" where
  "generateWedge config m k n rows s =
     (let s1 = s\<lparr>currentParams := \<lparr>par_m = m, par_k = k, par_n = n\<rparr>\<rparr>;
          (basePolygons, s2) = generatePrototile m k n s1
      in case basePolygons of
           [] \<Rightarrow> (basePolygons, s2)
         | basePoly # others \<Rightarrow>
             if path basePoly = [] then (basePolygons, s2)
             else
               (let d0 = wedge_d0 m k n;
                    d1 = wedge_d1 k n;
                    s3 = s2\<lparr>polygons := []\<rparr>;
                    s4 = generatePalette config None None s3;
                    (s5, tIndex) = rows_loop config basePoly d0 d1 rows 0 (s4, 0)
                in (polygons s5, s5)))"

section \<open>generateTiling\<close>

text \<open>\<open>w_limit = isOffset ? (n / 2) : n\<close>; the division is not an integer division.\<close>

definition w_limit_of :: "nat \<Rightarrow> bool \<Rightarrow> real" where
  "w_limit_of n isOffset = (if isOffset then real n / 2 else real n)"

text \<open>The \<open>u_seq\<close> that \<open>generateTiling\<close> builds with its own copy of the loop.\<close>

definition tiling_u_seq :: "nat \<Rightarrow> nat \<Rightarrow> nat list" where
  "tiling_u_seq m k =
     (let (u_body, hsp) = u_seq_loop m k 1 ([k], False)
      in u_body @ [0])"

text \<open>\<open>front_directions = u_seq.slice(0, u_seq.length - 1)\<close>.\<close>

definition front_init :: "nat \<Rightarrow> nat \<Rightarrow> nat list" where
  "front_init m k = (let u_seq = tiling_u_seq m k in take (length u_seq - 1) u_seq)"

text \<open>
  The body of \<open>polys.forEach\<close> in \<open>addTransformedWedge\<close>: one polygon rotated, then
  translated, recoloured and pushed.
\<close>

definition transformed_poly ::
  "tiling_config \<Rightarrow> real \<Rightarrow> real \<Rightarrow> real \<Rightarrow> nat \<Rightarrow> gen_state \<Rightarrow> polygon \<Rightarrow> polygon" where
  "transformed_poly config offsetX offsetY rotAngle rotationIndex s p =
     (let cs = cos rotAngle; sn = sin rotAngle;
          newPath = map (\<lambda>pt. ((fst pt * cs - snd pt * sn) + offsetX,
                                (fst pt * sn + snd pt * cs) + offsetY)) (path p);
          r = (case meta_r (meta p) of Some v \<Rightarrow> v | None \<Rightarrow> 0);
          c = (case meta_c (meta p) of Some v \<Rightarrow> v | None \<Rightarrow> 0);
          cIdx = getColorIndex config (currentParams s) r c rotationIndex
      in \<lparr>path = newPath, color = palette_at (palette s) cIdx, stroke = ''#888'',
          meta = (meta p)\<lparr>wedgeIndex := Some rotationIndex\<rparr>\<rparr>)"

fun add_polys ::
  "tiling_config \<Rightarrow> real \<Rightarrow> real \<Rightarrow> real \<Rightarrow> nat \<Rightarrow> polygon list \<Rightarrow> gen_state \<Rightarrow> gen_state" where
  "add_polys config offsetX offsetY rotAngle rotationIndex [] s = s"
| "add_polys config offsetX offsetY rotAngle rotationIndex (p # ps) s =
     add_polys config offsetX offsetY rotAngle rotationIndex ps
       (s\<lparr>polygons := polygons s @
            [transformed_poly config offsetX offsetY rotAngle rotationIndex s p]\<rparr>)"

text \<open>
  \<open>addTransformedWedge(polys, offsetX, offsetY, rotationIndex, colorOffset)\<close>, with the
  \<open>n\<close> of \<open>unit_angle\<close>. The body never reads \<open>colorOffset\<close>, so the model leaves
  it and the array \<open>wedge_offsets\<close> out.
\<close>

definition addTransformedWedge ::
  "tiling_config \<Rightarrow> nat \<Rightarrow> polygon list \<Rightarrow> real \<Rightarrow> real \<Rightarrow> nat \<Rightarrow> gen_state \<Rightarrow> gen_state" where
  "addTransformedWedge config n polys offsetX offsetY rotationIndex s =
     (let unit_angle = (2 * pi) / real n;
          rotAngle = real rotationIndex * unit_angle;
          s1 = (if length (palette s) \<noteq> colorCount config
                then generatePalette config None None s else s)
      in add_polys config offsetX offsetY rotAngle rotationIndex polys s1)"

text \<open>The search for \<open>j_star\<close>; \<open>None\<close> is the \<open>-1\<close> of the source.\<close>

function find_j_star :: "nat list \<Rightarrow> nat \<Rightarrow> nat \<Rightarrow> nat option" where
  "find_j_star front i idx =
     (if idx < length front then
        (if front ! idx = i then Some idx else find_j_star front i (idx + 1))
      else None)"
  by pat_completeness auto
termination
  by (relation "measure (\<lambda>(front, i, idx). length front - idx)") auto

declare find_j_star.simps [simp del]

text \<open>The loop that sums the start position over \<open>idx < j_star\<close>.\<close>

function start_pos_loop :: "nat \<Rightarrow> nat list \<Rightarrow> nat \<Rightarrow> nat \<Rightarrow> point \<Rightarrow> point" where
  "start_pos_loop n front j_star idx start =
     (if idx < j_star then
        (let v = getVector n (front ! idx)
         in start_pos_loop n front j_star (idx + 1) (fst start + fst v, snd start + snd v))
      else start)"
  by pat_completeness auto
termination
  by (relation "measure (\<lambda>(n, front, j_star, idx, start). j_star - idx)") auto

declare start_pos_loop.simps [simp del]

text \<open>
  One iteration of the wedge loop, for the index \<open>i\<close>, on the front and the state:
  either the warning and \<open>continue\<close>, or the placement and the update of the front.
\<close>

definition place_wedge ::
  "tiling_config \<Rightarrow> nat \<Rightarrow> nat \<Rightarrow> polygon list \<Rightarrow> nat \<Rightarrow> nat list \<times> gen_state
     \<Rightarrow> nat list \<times> gen_state" where
  "place_wedge config k n baseWedge i st =
     (let front = fst st; s = snd st in
      case find_j_star front i 0 of
        None \<Rightarrow> (front, s\<lparr>console := console s @ [Direction_not_found i]\<rparr>)
      | Some j_star \<Rightarrow>
          (let start = start_pos_loop n front j_star 0 (0, 0);
               s' = addTransformedWedge config n baseWedge (fst start) (snd start) i s
           in (front[j_star := i + k], s')))"

function wedge_loop ::
  "tiling_config \<Rightarrow> nat \<Rightarrow> nat \<Rightarrow> polygon list \<Rightarrow> real \<Rightarrow> nat \<Rightarrow> nat list \<times> gen_state
     \<Rightarrow> nat list \<times> gen_state" where
  "wedge_loop config k n baseWedge w_limit i st =
     (if real i < w_limit then
        wedge_loop config k n baseWedge w_limit (i + 1) (place_wedge config k n baseWedge i st)
      else st)"
  by pat_completeness auto
termination
  by (relation "measure (\<lambda>(config, k, n, baseWedge, w_limit, i, st). nat \<lceil>w_limit\<rceil> - i)")
     (auto, linarith)

declare wedge_loop.simps [simp del]

text \<open>
  The primary pass: wedge 0, then the loop from \<open>i = 1\<close>. It starts from the state in
  which \<open>this.polygons\<close> has been cleared.
\<close>

definition primary_pass ::
  "tiling_config \<Rightarrow> nat \<Rightarrow> nat \<Rightarrow> nat \<Rightarrow> bool \<Rightarrow> polygon list \<Rightarrow> gen_state
     \<Rightarrow> nat list \<times> gen_state" where
  "primary_pass config m k n isOffset baseWedge s =
     (let w_limit = w_limit_of n isOffset;
          front_directions = front_init m k;
          s1 = addTransformedWedge config n baseWedge 0 0 0 s
      in wedge_loop config k n baseWedge w_limit 1 (front_directions, s1))"

text \<open>The copy pushed for one polygon in offset mode.\<close>

definition reflected_poly :: "point \<Rightarrow> polygon \<Rightarrow> polygon" where
  "reflected_poly pivot p =
     \<lparr>path = map (\<lambda>pt. (2 * fst pivot - fst pt, 2 * snd pivot - snd pt)) (path p),
      color = color p, stroke = stroke p,
      meta = (meta p)\<lparr>isCopy := Some True,
                       wedgeIndex := (case wedgeIndex (meta p) of
                                        Some w \<Rightarrow> Some (w + 10000) | None \<Rightarrow> None)\<rparr>\<rparr>"

fun reflect_polys :: "point \<Rightarrow> polygon list \<Rightarrow> gen_state \<Rightarrow> gen_state" where
  "reflect_polys pivot [] s = s"
| "reflect_polys pivot (p # ps) s =
     reflect_polys pivot ps (s\<lparr>polygons := polygons s @ [reflected_poly pivot p]\<rparr>)"

text \<open>
  The offset pass: \<open>currentPolys\<close> is a deep copy of \<open>this.polygons\<close>, and every
  element of it is reflected about the pivot and pushed.
\<close>

definition offset_pass :: "nat \<Rightarrow> gen_state \<Rightarrow> gen_state" where
  "offset_pass n s =
     (let v0 = getVector n 0;
          pivot = (fst v0 / 2, snd v0 / 2);
          currentPolys = polygons s
      in reflect_polys pivot currentPolys s)"

text \<open>
  \<open>generateTiling(m, k, n, rows, isOffset)\<close>. An empty base wedge returns a fresh
  empty array.
\<close>

definition generateTiling ::
  "tiling_config \<Rightarrow> nat \<Rightarrow> nat \<Rightarrow> nat \<Rightarrow> nat \<Rightarrow> bool \<Rightarrow> gen_state \<Rightarrow> polygon list \<times> gen_state" where
  "generateTiling config m k n rows isOffset s =
     (let s1 = s\<lparr>currentParams := \<lparr>par_m = m, par_k = k, par_n = n\<rparr>\<rparr>;
          (wedge0Polys, s2) = generateWedge config m k n rows s1
      in if wedge0Polys = [] then ([], s2)
         else
           (let baseWedge = wedge0Polys;
                s3 = s2\<lparr>polygons := []\<rparr>;
                (front, s4) = primary_pass config m k n isOffset baseWedge s3;
                s5 = (if isOffset then offset_pass n s4 else s4)
            in (polygons s5, s5)))"

section \<open>The specification's wording, for comparison with the code\<close>

text \<open>
  The definitions of this section follow the words of the specification, not the code;
  the theorems below compare them with the functions above.
\<close>

text \<open>
  The counter at which a boundary sequence stops: the first \<open>j\<close> with \<open>0 < j < k\<close>
  and \<open>(j\<cdot>m) mod k = 0\<close>, and \<open>k\<close> when there is none.
\<close>

definition spec_stop :: "nat \<Rightarrow> nat \<Rightarrow> nat" where
  "spec_stop m k =
     (case find (\<lambda>j. (j * m) mod k = 0) [1..<k] of None \<Rightarrow> k | Some j \<Rightarrow> j)"

definition spec_L :: "nat \<Rightarrow> nat \<Rightarrow> nat list" where
  "spec_L m k = map (\<lambda>j. (j * m) mod k) [0..<spec_stop m k] @ [k]"

definition spec_U :: "nat \<Rightarrow> nat \<Rightarrow> nat list" where
  "spec_U m k = [k] @ map (\<lambda>j. (j * m) mod k) [1..<spec_stop m k] @ [0]"

text \<open>The vector sum of a list of points.\<close>

definition vec_sum :: "point list \<Rightarrow> point" where
  "vec_sum vs = (sum_list (map fst vs), sum_list (map snd vs))"

text \<open>
  The cells \<open>(r, c)\<close> with \<open>0 \<le> c \<le> r < rows\<close>, in row-major order, and the wedge
  as the specification describes it: cell number \<open>i\<close> is the prototile path translated
  by \<open>r\<cdot>d0 + c\<cdot>d1\<close>, with \<open>tileIndex = i\<close>.
\<close>

definition wedge_cells :: "nat \<Rightarrow> (nat \<times> nat) list" where
  "wedge_cells rows = concat (map (\<lambda>r. map (\<lambda>c. (r, c)) [0..<r + 1]) [0..<rows])"

definition spec_d0 :: "nat \<Rightarrow> nat \<Rightarrow> nat \<Rightarrow> point" where
  "spec_d0 m k n = vec_sum (map (getVector n) (butlast (spec_L m k)))"

definition spec_d1 :: "nat \<Rightarrow> nat \<Rightarrow> point" where
  "spec_d1 k n = (fst (getVector n k) - fst (getVector n 0),
                  snd (getVector n k) - snd (getVector n 0))"

definition translate_point :: "point \<Rightarrow> point \<Rightarrow> point" where
  "translate_point d p = (fst p + fst d, snd p + snd d)"

definition spec_shift :: "point \<Rightarrow> point \<Rightarrow> nat \<Rightarrow> nat \<Rightarrow> point" where
  "spec_shift d0 d1 r c =
     (real r * fst d0 + real c * fst d1, real r * snd d0 + real c * snd d1)"

text \<open>Rotation about the origin by an angle.\<close>

definition rotate_point :: "real \<Rightarrow> point \<Rightarrow> point" where
  "rotate_point a p = (fst p * cos a - snd p * sin a, fst p * sin a + snd p * cos a)"

text \<open>
  The copy of the base wedge for rotation index \<open>i\<close> at offset \<open>off\<close>: every point
  rotated by \<open>i\<cdot>2\<pi>/n\<close>, then translated; \<open>wedgeIndex\<close> overwritten, the other
  metadata passed through; the colour recomputed from \<open>(r, c, i)\<close>.
\<close>

definition spec_wedge_copy ::
  "tiling_config \<Rightarrow> color list \<Rightarrow> params \<Rightarrow> nat \<Rightarrow> nat \<Rightarrow> point \<Rightarrow> polygon list \<Rightarrow> polygon list" where
  "spec_wedge_copy config pal par n i off base =
     map (\<lambda>p. \<lparr>path = map (\<lambda>pt. translate_point off
                                (rotate_point (real i * (2 * pi / real n)) pt)) (path p),
               color = palette_at pal
                 (getColorIndex config par (case meta_r (meta p) of Some v \<Rightarrow> v | None \<Rightarrow> 0)
                    (case meta_c (meta p) of Some v \<Rightarrow> v | None \<Rightarrow> 0) i),
               stroke = ''#888'',
               meta = (meta p)\<lparr>wedgeIndex := Some i\<rparr>\<rparr>) base"

text \<open>The smallest index of the front whose value is \<open>i\<close> (when there is one).\<close>

definition spec_j_star :: "nat list \<Rightarrow> nat \<Rightarrow> nat" where
  "spec_j_star front i = length (takeWhile (\<lambda>d. d \<noteq> i) front)"

text \<open>
  One step of the placer for wedge \<open>i\<close>, on the front, the polygons placed so far and
  the wedges skipped so far.
\<close>

definition spec_place ::
  "tiling_config \<Rightarrow> color list \<Rightarrow> params \<Rightarrow> nat \<Rightarrow> nat \<Rightarrow> polygon list \<Rightarrow> nat
     \<Rightarrow> nat list \<times> polygon list \<times> nat list \<Rightarrow> nat list \<times> polygon list \<times> nat list" where
  "spec_place config pal par k n base i st =
     (let front = fst st; placed = fst (snd st); skipped = snd (snd st) in
      if i \<in> set front then
        (let j = spec_j_star front i;
             off = vec_sum (map (getVector n) (take j front))
         in (front[j := i + k], placed @ spec_wedge_copy config pal par n i off base, skipped))
      else (front, placed, skipped @ [i]))"

text \<open>
  The placer: the front starts as \<open>U\<close> without its last entry, wedge 0 is the base
  wedge as it is, and the wedges \<open>1 \<le> i < w_limit\<close> follow in increasing order.
\<close>

definition spec_primary ::
  "tiling_config \<Rightarrow> color list \<Rightarrow> params \<Rightarrow> nat \<Rightarrow> nat \<Rightarrow> nat \<Rightarrow> bool \<Rightarrow> polygon list
     \<Rightarrow> nat list \<times> polygon list \<times> nat list" where
  "spec_primary config pal par m k n isOffset base =
     foldl (\<lambda>st i. spec_place config pal par k n base i st)
       (butlast (spec_U m k), base, [])
       [1..<nat \<lceil>if isOffset then real n / 2 else real n\<rceil>]"

text \<open>
  The wedge in the specification's words: for the cells in row-major order, the cell
  number \<open>i\<close> at \<open>(r, c)\<close> is the prototile path translated by \<open>r\<cdot>d0 + c\<cdot>d1\<close>,
  coloured by the Color Indexer at \<open>(r, c, 0)\<close>, with \<open>tileIndex = i\<close>.
\<close>

definition spec_wedge ::
  "tiling_config \<Rightarrow> color list \<Rightarrow> params \<Rightarrow> point list \<Rightarrow> point \<Rightarrow> point \<Rightarrow> nat \<Rightarrow> polygon list" where
  "spec_wedge config pal par proto_path d0 d1 rows =
     map (\<lambda>(i, (r, c)).
            \<lparr>path = map (translate_point (spec_shift d0 d1 r c)) proto_path,
             color = palette_at pal (getColorIndex config par r c 0),
             stroke = ''#888'',
             meta = empty_meta\<lparr>wedgeIndex := Some 0, tileIndex := Some i,
                                meta_r := Some r, meta_c := Some c\<rparr>\<rparr>)
         (enumerate 0 (wedge_cells rows))"

text \<open>The palette a generation pass computes, from the colour count and the stored type.\<close>

definition pass_palette :: "tiling_config \<Rightarrow> gen_state \<Rightarrow> color list" where
  "pass_palette config s =
     map (palette_entry (colorCount config) (paletteType s)) [0..<colorCount config]"

text \<open>
  The colour index in the specification's words, for a colour count, the per-wedge rule
  that applies (its keys missing where there is no explicit entry), and \<open>(r, c, wedgeIndex)\<close>.
\<close>

definition spec_color_index :: "nat \<Rightarrow> wedge_rule \<Rightarrow> nat \<Rightarrow> nat \<Rightarrow> nat \<Rightarrow> nat" where
  "spec_color_index count rl r c wi =
     (let rev_flag = (case reverse rl of Some b \<Rightarrow> b | None \<Rightarrow> wi mod 2 \<noteq> 0);
          start = (case startColor rl of Some sc \<Rightarrow> sc | None \<Rightarrow> wi mod count);
          baseIndex = (if rev_flag then (count - ((r + c) mod count)) mod count
                       else (r + c) mod count)
      in (baseIndex + start) mod count)"

section \<open>The boundary sequences\<close>

lemma stop_ge:
  "j \<le> k \<Longrightarrow> j \<le> (case find P [j..<k] of None \<Rightarrow> k | Some x \<Rightarrow> x)"
  by (auto split: option.splits simp: find_Some_iff)

lemma u_seq_loop_char:
  "u_seq_loop m k j (acc, h) =
     (acc @ map (\<lambda>j. (j * m) mod k)
        [j..<(case find (\<lambda>j. (j * m) mod k = 0) [j..<k] of None \<Rightarrow> k | Some x \<Rightarrow> x)],
      h \<or> (case find (\<lambda>j. (j * m) mod k = 0) [j..<k] of None \<Rightarrow> k | Some x \<Rightarrow> x) < k)"
proof (induction m k j "(acc, h)" arbitrary: acc h rule: u_seq_loop.induct)
  case (1 m k j acc h)
  show ?case
  proof (cases "j < k")
    case False
    then show ?thesis by (simp add: u_seq_loop.simps[of m k j])
  next
    case jk: True
    show ?thesis
    proof (cases "(j * m) mod k = 0")
      case True
      with jk show ?thesis by (simp add: upt_conv_Cons u_seq_loop.simps[of m k j])
    next
      case False
      let ?s = "case find (\<lambda>j. (j * m) mod k = 0) [Suc j..<k] of None \<Rightarrow> k | Some x \<Rightarrow> x"
      have ge: "Suc j \<le> ?s" using jk stop_ge[of "Suc j" k] by simp
      have up: "[j..<?s] = j # [Suc j..<?s]" using ge by (simp add: upt_conv_Cons)
      from jk False 1(1)[OF jk False] show ?thesis
        by (simp add: upt_conv_Cons[of j k] up u_seq_loop.simps[of m k j] del: upt_Suc)
    qed
  qed
qed

lemma l_seq_loop_pos:
  "0 < j \<Longrightarrow> l_seq_loop m k j (acc, h) = u_seq_loop m k j (acc, h)"
proof (induction m k j "(acc, h)" arbitrary: acc h rule: u_seq_loop.induct)
  case (1 m k j acc h)
  show ?case
  proof (cases "j < k \<and> (j * m) mod k \<noteq> 0")
    case True
    then have "l_seq_loop m k (j + 1) (acc @ [(j * m) mod k], h)
        = u_seq_loop m k (j + 1) (acc @ [(j * m) mod k], h)"
      using 1(1) by simp
    with True 1(2) show ?thesis
      by (simp add: u_seq_loop.simps[of m k j] l_seq_loop.simps[of m k j])
  next
    case False
    with 1(2) show ?thesis
      by (auto simp: u_seq_loop.simps[of m k j] l_seq_loop.simps[of m k j])
  qed
qed

lemma l_seq_loop_zero:
  "l_seq_loop m k 0 ([], h) = (if k = 0 then ([], h) else u_seq_loop m k (Suc 0) ([0], h))"
proof (cases "k = 0")
  case True
  then show ?thesis by (simp add: l_seq_loop.simps[of m 0 0])
next
  case False
  then have "l_seq_loop m k 0 ([], h) = l_seq_loop m k 1 ([0], h)"
    by (simp add: l_seq_loop.simps[of m k 0])
  with False show ?thesis by (simp add: l_seq_loop_pos[of "Suc 0"])
qed

lemma spec_stop_ge: "0 < k \<Longrightarrow> 1 \<le> spec_stop m k"
  unfolding spec_stop_def using stop_ge[of 1 k] by simp


lemma l_body_eq:
  "l_seq_loop m k 0 ([], h) =
     (map (\<lambda>j. (j * m) mod k) [0..<spec_stop m k], h \<or> spec_stop m k < k)"
proof (cases "k = 0")
  case True
  then show ?thesis by (simp add: l_seq_loop_zero spec_stop_def)
next
  case False
  then have "[0..<spec_stop m k] = 0 # [1..<spec_stop m k]"
    using spec_stop_ge[of k m] by (simp add: upt_conv_Cons)
  with False show ?thesis
    by (simp add: l_seq_loop_zero u_seq_loop_char spec_stop_def del: upt_Suc)
qed

lemma u_body_eq:
  "u_seq_loop m k (Suc 0) ([k], h) =
     (k # map (\<lambda>j. (j * m) mod k) [1..<spec_stop m k], h \<or> spec_stop m k < k)"
  by (simp add: u_seq_loop_char spec_stop_def)

lemma build_sequences_eq:
  "build_sequences m k = (spec_L m k, spec_U m k, spec_stop m k < k)"
  by (simp add: build_sequences_def l_body_eq u_body_eq spec_L_def spec_U_def)

lemma tiling_u_seq_eq: "tiling_u_seq m k = spec_U m k"
  by (simp add: tiling_u_seq_def u_body_eq spec_U_def)

lemma front_init_eq: "front_init m k = butlast (spec_U m k)"
  by (simp add: front_init_def tiling_u_seq_eq butlast_conv_take Let_def)












section \<open>The prototile path\<close>

lemma walk_forward_pos:
  "fst (walk_forward n ds (cur, p)) =
     (fst cur + sum_list (map (\<lambda>d. fst (getVector n d)) ds),
      snd cur + sum_list (map (\<lambda>d. snd (getVector n d)) ds))"
  by (induction ds arbitrary: cur p) (simp_all add: Let_def add.assoc)

lemma walk_backward_pos:
  "fst (walk_backward n ds (cur, p)) =
     (fst cur - sum_list (map (\<lambda>d. fst (getVector n d)) ds),
      snd cur - sum_list (map (\<lambda>d. snd (getVector n d)) ds))"
  by (induction ds arbitrary: cur p) (simp_all add: Let_def algebra_simps)

lemma walk_forward_length:
  "length (snd (walk_forward n ds (cur, p))) = length p + length ds"
  by (induction ds arbitrary: cur p) (simp_all add: Let_def)

lemma walk_backward_length:
  "length (snd (walk_backward n ds (cur, p))) = length p + length ds"
  by (induction ds arbitrary: cur p) (simp_all add: Let_def)

lemma walk_forward_last:
  "p \<noteq> [] \<Longrightarrow> last p = cur \<Longrightarrow>
     snd (walk_forward n ds (cur, p)) \<noteq> [] \<and>
     last (snd (walk_forward n ds (cur, p))) = fst (walk_forward n ds (cur, p))"
  by (induction ds arbitrary: cur p) (simp_all add: Let_def)

lemma walk_backward_last:
  "p \<noteq> [] \<Longrightarrow> last p = cur \<Longrightarrow>
     snd (walk_backward n ds (cur, p)) \<noteq> [] \<and>
     last (snd (walk_backward n ds (cur, p))) = fst (walk_backward n ds (cur, p))"
  by (induction ds arbitrary: cur p) (simp_all add: Let_def)

lemma spec_L_split:
  "0 < k \<Longrightarrow> spec_L m k = 0 # map (\<lambda>j. (j * m) mod k) [1..<spec_stop m k] @ [k]"
proof -
  assume "0 < k"
  then have "[0..<spec_stop m k] = 0 # [1..<spec_stop m k]"
    using spec_stop_ge[of k m] by (simp add: upt_conv_Cons)
  then show ?thesis by (simp add: spec_L_def del: upt_Suc)
qed

lemma sum_L_eq_sum_U:
  fixes g :: "nat \<Rightarrow> real"
  assumes "0 < k"
  shows "sum_list (map g (spec_L m k)) = sum_list (map g (rev (spec_U m k)))"
proof -
  have "sum_list (map g (rev (spec_U m k))) = sum_list (map g (spec_U m k))"
    by (simp add: rev_map[symmetric] sum_list_rev del: rev_append)
  then show ?thesis using assms by (simp add: spec_L_split spec_U_def)
qed

lemma prototile_walk_eq:
  "prototile_walk m k n =
     walk_backward n (rev (spec_U m k)) (walk_forward n (spec_L m k) ((0, 0), [(0, 0)]))"
  by (simp add: prototile_walk_def build_sequences_eq)

lemma prototile_walk_closed:
  assumes "0 < k"
  shows "fst (prototile_walk m k n) = (0, 0)"
proof -
  obtain cur p where w: "walk_forward n (spec_L m k) ((0, 0), [(0, 0)]) = (cur, p)"
    by (cases "walk_forward n (spec_L m k) ((0, 0), [(0, 0)])")
  have cur: "cur = (sum_list (map (\<lambda>d. fst (getVector n d)) (spec_L m k)),
                    sum_list (map (\<lambda>d. snd (getVector n d)) (spec_L m k)))"
    using walk_forward_pos[of n "spec_L m k" "(0, 0)" "[(0, 0)]"] w by simp
  show ?thesis
    unfolding prototile_walk_eq w walk_backward_pos cur
    using sum_L_eq_sum_U[OF assms, of "\<lambda>d. fst (getVector n d)" m]
          sum_L_eq_sum_U[OF assms, of "\<lambda>d. snd (getVector n d)" m]
    by simp
qed

lemma prototile_walk_last:
  "snd (prototile_walk m k n) \<noteq> [] \<and>
   last (snd (prototile_walk m k n)) = fst (prototile_walk m k n)"
proof -
  obtain cur p where w: "walk_forward n (spec_L m k) ((0, 0), [(0, 0)]) = (cur, p)"
    by (cases "walk_forward n (spec_L m k) ((0, 0), [(0, 0)])")
  have "p \<noteq> [] \<and> last p = cur"
    using walk_forward_last[of "[(0, 0)]" "(0, 0)" n "spec_L m k"] w by simp
  then show ?thesis
    unfolding prototile_walk_eq w using walk_backward_last[of p cur n "rev (spec_U m k)"]
    by simp
qed

lemma prototile_walk_length:
  "length (snd (prototile_walk m k n)) = 1 + length (spec_L m k) + length (spec_U m k)"
proof -
  obtain cur p where w: "walk_forward n (spec_L m k) ((0, 0), [(0, 0)]) = (cur, p)"
    by (cases "walk_forward n (spec_L m k) ((0, 0), [(0, 0)])")
  have "length p = 1 + length (spec_L m k)"
    using walk_forward_length[of n "spec_L m k" "(0, 0)" "[(0, 0)]"] w by simp
  then show ?thesis
    unfolding prototile_walk_eq w using walk_backward_length[of n "rev (spec_U m k)" cur p]
    by simp
qed

text \<open>The one polygon that \<open>generatePrototile\<close> returns, whatever the parameters.\<close>

lemma generatePrototile_result:
  "fst (generatePrototile m k n s) =
     [\<lparr>path = snd (prototile_walk m k n), color = Rgba_proto, stroke = ''#58a6ff'',
       meta = empty_meta\<lparr>closureError :=
                 Some (hypot (fst (fst (prototile_walk m k n))) (snd (fst (prototile_walk m k n)))),
               hasShortPeriod := Some (spec_stop m k < k)\<rparr>\<rparr>]"
  by (simp add: generatePrototile_def build_sequences_eq Let_def split: prod.splits)

text \<open>
  C3. For coprime \<open>m\<close>, \<open>k\<close> with \<open>1 \<le> m < k\<close> and \<open>n \<ge> k\<close>, the position after
  the walk forward through \<open>L\<close> and backward through the reversed \<open>U\<close> is the origin in
  exact (real) arithmetic: the last point of the path of the one polygon that
  \<open>generatePrototile\<close> returns is \<open>(0, 0)\<close>, and its \<open>closureError\<close> is 0.
\<close>

theorem prototile_closure:
  assumes "coprime m k" and "1 \<le> m" and "m < k" and "k \<le> n"
  shows "fst (prototile_walk m k n) = (0, 0) \<and>
         (\<exists>p. fst (generatePrototile m k n s) = [p] \<and> last (path p) = (0, 0) \<and>
              closureError (meta p) = Some 0)"
proof -
  have kpos: "0 < k" using assms(2,3) by simp
  have c: "fst (prototile_walk m k n) = (0, 0)" by (rule prototile_walk_closed[OF kpos])
  have l: "last (snd (prototile_walk m k n)) = (0, 0)"
    using prototile_walk_last[of m k n] c by simp
  show ?thesis
    using c l by (simp add: generatePrototile_result hypot_def)
qed

theorem prototile_closure_witness:
  "coprime (3::nat) 7 \<and> (1::nat) \<le> 3 \<and> (3::nat) < 7 \<and> (7::nat) \<le> 14 \<and>
   fst (prototile_walk 3 7 14) = (0, 0) \<and>
   (\<exists>p. fst (generatePrototile 3 7 14 initial_state) = [p] \<and> last (path p) = (0, 0) \<and>
        closureError (meta p) = Some 0)"
proof -
  have h: "coprime (3::nat) 7" by (simp add: coprime_iff_gcd_eq_1) code_simp
  from prototile_closure[OF h, of 14 initial_state] h show ?thesis by simp
qed

section \<open>The wedge\<close>

lemma spec_L_nth:
  "j < spec_stop m k \<Longrightarrow> spec_L m k ! j = (j * m) mod k"
  by (simp add: spec_L_def nth_append)

lemma d0_loop_char:
  "0 < j \<Longrightarrow> d0_loop m k n ls j d0 =
     (fst d0 + sum_list (map (\<lambda>i. fst (getVector n (ls ! i)))
        [j..<(case find (\<lambda>j. (j * m) mod k = 0) [j..<k] of None \<Rightarrow> k | Some x \<Rightarrow> x)]),
      snd d0 + sum_list (map (\<lambda>i. snd (getVector n (ls ! i)))
        [j..<(case find (\<lambda>j. (j * m) mod k = 0) [j..<k] of None \<Rightarrow> k | Some x \<Rightarrow> x)]))"
proof (induction m k n ls j d0 rule: d0_loop.induct)
  case (1 m k n ls j d0)
  show ?case
  proof (cases "j < k")
    case False
    then show ?thesis by (simp add: d0_loop.simps[of m k n ls j])
  next
    case jk: True
    show ?thesis
    proof (cases "(j * m) mod k = 0")
      case True
      with jk 1(2) show ?thesis by (simp add: upt_conv_Cons d0_loop.simps[of m k n ls j])
    next
      case False
      let ?s = "case find (\<lambda>j. (j * m) mod k = 0) [Suc j..<k] of None \<Rightarrow> k | Some x \<Rightarrow> x"
      have ge: "Suc j \<le> ?s" using jk stop_ge[of "Suc j" k] by simp
      have up: "[j..<?s] = j # [Suc j..<?s]" using ge by (simp add: upt_conv_Cons)
      have nb: "\<not> (0 < j \<and> (j * m) mod k = 0)" using False by simp
      from jk False 1(1)[OF jk nb refl] show ?thesis
        by (simp add: upt_conv_Cons[of j k] up d0_loop.simps[of m k n ls j] Let_def add.assoc
              del: upt_Suc)
    qed
  qed
qed

lemma spec_stop_Suc:
  "(case find (\<lambda>j. (j * m) mod k = 0) [Suc 0..<k] of None \<Rightarrow> k | Some x \<Rightarrow> x)
     = spec_stop m k"
  by (simp add: spec_stop_def)

lemma wedge_d0_eq: "wedge_d0 m k n = spec_d0 m k n"
proof (cases "k = 0")
  case True
  then show ?thesis
    by (simp add: wedge_d0_def spec_d0_def l_body_eq d0_loop.simps[of m 0 n _ 0]
          spec_L_def spec_stop_def vec_sum_def)
next
  case False
  let ?s = "spec_stop m k"
  have up: "[0..<?s] = 0 # [1..<?s]"
    using False spec_stop_ge[of k m] by (simp add: upt_conv_Cons)
  have l: "fst (l_seq_loop m k 0 ([], False)) @ [k] = spec_L m k"
    by (simp add: l_body_eq spec_L_def)
  have step: "d0_loop m k n (spec_L m k) 0 (0, 0) =
      d0_loop m k n (spec_L m k) (Suc 0) (fst (getVector n (spec_L m k ! 0)),
                                          snd (getVector n (spec_L m k ! 0)))"
    using False by (simp add: d0_loop.simps[of m k n _ 0] Let_def)
  have nth: "map (\<lambda>i. getVector n (spec_L m k ! i)) [0..<?s]
      = map (getVector n) (butlast (spec_L m k))"
    by (simp add: spec_L_def nth_append map_upt_eqI)
  have "wedge_d0 m k n = d0_loop m k n (spec_L m k) 0 (0, 0)"
    by (simp add: wedge_d0_def l_body_eq spec_L_def)
  also have "\<dots> = vec_sum (map (\<lambda>i. getVector n (spec_L m k ! i)) [0..<?s])"
    unfolding step by (simp add: d0_loop_char spec_stop_Suc up vec_sum_def comp_def
        del: upt_Suc)
  finally show ?thesis by (simp add: nth spec_d0_def)
qed

lemma wedge_d1_eq: "wedge_d1 k n = spec_d1 k n"
  by (simp add: wedge_d1_def spec_d1_def Let_def)

lemma wedge_tile_polygons [simp]:
  "wedge_tile config bp d0 d1 r c t (s\<lparr>polygons := ps\<rparr>) = wedge_tile config bp d0 d1 r c t s"
  by (simp add: wedge_tile_def)

lemma cols_loop_char:
  "c \<le> r + 1 \<Longrightarrow> cols_loop config bp d0 d1 r c (s, t) =
     (s\<lparr>polygons := polygons s @
          map (\<lambda>(i, c'). wedge_tile config bp d0 d1 r c' i s) (enumerate t [c..<r + 1])\<rparr>,
      t + (r + 1 - c))"
proof (induction config bp d0 d1 r c "(s, t)" arbitrary: s t rule: cols_loop.induct)
  case (1 config bp d0 d1 r c s t)
  show ?case
  proof (cases "c \<le> r")
    case False
    with 1(2) have "c = r + 1" by simp
    then show ?thesis by (simp add: cols_loop.simps[of config bp d0 d1 r "Suc r"])
  next
    case True
    have up: "[c..<Suc r] = c # [Suc c..<Suc r]" using True by (simp add: upt_conv_Cons)
    from True 1(1)[OF True] show ?thesis
      by (simp add: cols_loop.simps[of config bp d0 d1 r c] up Suc_diff_le del: upt_Suc)
  qed
qed

lemma map_enumerate_Pair:
  "map (\<lambda>(i, (r', c')). G r' c' i) (enumerate t (map (Pair r) cs)) =
   map (\<lambda>(i, c'). G r c' i) (enumerate t cs)"
  by (induction cs arbitrary: t) simp_all

lemma rows_loop_char:
  "r \<le> rows \<Longrightarrow> rows_loop config bp d0 d1 rows r st =
     ((fst st)\<lparr>polygons := polygons (fst st) @
          map (\<lambda>(i, (r', c')). wedge_tile config bp d0 d1 r' c' i (fst st))
            (enumerate (snd st) (concat (map (\<lambda>r. map (Pair r) [0..<r + 1]) [r..<rows])))\<rparr>,
      snd st + length (concat (map (\<lambda>r. map (Pair r) [0..<r + 1]) [r..<rows])))"
proof (induction config bp d0 d1 rows r st rule: rows_loop.induct)
  case (1 config bp d0 d1 rows r st)
  obtain s t where st: "st = (s, t)" by (cases st)
  show ?case
  proof (cases "r < rows")
    case False
    with 1(2) have "r = rows" by simp
    then show ?thesis by (simp add: rows_loop.simps[of config bp d0 d1 rows rows])
  next
    case True
    have up: "[r..<rows] = r # [Suc r..<rows]" using True by (simp add: upt_conv_Cons)
    have le: "r + 1 \<le> rows" using True by simp
    show ?thesis
      using True 1(1)[OF True le]
      by (simp add: rows_loop.simps[of config bp d0 d1 rows r] st cols_loop_char up
            enumerate_append_eq map_enumerate_Pair add.assoc del: upt_Suc)
  qed
qed

lemma wedge_tile_eq:
  "wedge_tile config bp d0 d1 r c i s =
     \<lparr>path = map (translate_point (spec_shift d0 d1 r c)) (path bp),
      color = palette_at (palette s) (getColorIndex config (currentParams s) r c 0),
      stroke = ''#888'',
      meta = empty_meta\<lparr>wedgeIndex := Some 0, tileIndex := Some i,
                         meta_r := Some r, meta_c := Some c\<rparr>\<rparr>"
  by (simp add: wedge_tile_def translate_point_def spec_shift_def Let_def)

lemma prototile_path_nonempty: "snd (prototile_walk m k n) \<noteq> []"
  using prototile_walk_last[of m k n] by simp

text \<open>The state \<open>generatePrototile\<close> leaves.\<close>

lemma generatePrototile_state:
  "snd (generatePrototile m k n s) =
     s\<lparr>polygons := fst (generatePrototile m k n s),
       console := console s @ (if n < k then [Parameter_error, Parameter_error] else [])\<rparr>"
  by (simp add: generatePrototile_def build_sequences_eq Let_def split: prod.splits)

text \<open>What \<open>generateWedge\<close> returns and the state it leaves.\<close>

lemma generateWedge_result:
  "fst (generateWedge config m k n rows s) =
     spec_wedge config (pass_palette config s) \<lparr>par_m = m, par_k = k, par_n = n\<rparr>
       (snd (prototile_walk m k n)) (spec_d0 m k n) (spec_d1 k n) rows"
proof -
  let ?s1 = "s\<lparr>currentParams := \<lparr>par_m = m, par_k = k, par_n = n\<rparr>\<rparr>"
  obtain bp s2 where g: "generatePrototile m k n ?s1 = ([bp], s2)"
    and bp: "path bp = snd (prototile_walk m k n)"
    and s2: "s2 = snd (generatePrototile m k n ?s1)"
    using generatePrototile_result[of m k n ?s1]
    by (cases "generatePrototile m k n ?s1") auto
  have ne: "path bp \<noteq> []" using bp prototile_path_nonempty by simp
  have cp: "currentParams s2 = \<lparr>par_m = m, par_k = k, par_n = n\<rparr>"
    and pt: "paletteType s2 = paletteType s"
    unfolding s2 generatePrototile_state by simp_all
  show ?thesis
    using ne
    by (simp add: generateWedge_def g Let_def wedge_d0_eq wedge_d1_eq rows_loop_char
          split: prod.splits)
       (simp add: spec_wedge_def wedge_cells_def wedge_tile_eq generatePalette_def
          pass_palette_def cp pt bp Let_def)
qed

lemma generateWedge_state:
  "snd (generateWedge config m k n rows s) =
     s\<lparr>polygons := fst (generateWedge config m k n rows s),
       palette := pass_palette config s,
       currentParams := \<lparr>par_m = m, par_k = k, par_n = n\<rparr>,
       console := console s @ (if n < k then [Parameter_error, Parameter_error] else [])\<rparr>"
proof -
  let ?s1 = "s\<lparr>currentParams := \<lparr>par_m = m, par_k = k, par_n = n\<rparr>\<rparr>"
  obtain bp s2 where g: "generatePrototile m k n ?s1 = ([bp], s2)"
    and bp: "path bp = snd (prototile_walk m k n)"
    and s2: "s2 = snd (generatePrototile m k n ?s1)"
    using generatePrototile_result[of m k n ?s1]
    by (cases "generatePrototile m k n ?s1") auto
  have ne: "path bp \<noteq> []" using bp prototile_path_nonempty by simp
  show ?thesis
    using ne
    by (simp add: generateWedge_def g Let_def rows_loop_char split: prod.splits)
       (simp add: s2 generatePrototile_state generatePalette_def pass_palette_def Let_def)
qed

subsection \<open>The cells of the wedge\<close>

lemma wedge_cells_Suc:
  "wedge_cells (Suc rows) = wedge_cells rows @ map (Pair rows) [0..<rows + 1]"
  by (simp add: wedge_cells_def)

lemma length_wedge_cells_double: "2 * length (wedge_cells rows) = rows * (rows + 1)"
proof (induction rows)
  case 0
  show ?case by (simp add: wedge_cells_def)
next
  case (Suc rows)
  have "2 * length (wedge_cells (Suc rows)) = 2 * length (wedge_cells rows) + 2 * (rows + 1)"
    by (simp add: wedge_cells_Suc)
  with Suc show ?case by simp
qed

lemma length_wedge_cells: "length (wedge_cells rows) = rows * (rows + 1) div 2"
  using length_wedge_cells_double[of rows] by linarith

lemma set_wedge_cells: "set (wedge_cells rows) = {(r, c). c \<le> r \<and> r < rows}"
  by (auto simp add: wedge_cells_def simp del: upt_Suc)

lemma sorted_wedge_cells:
  "sorted_wrt (\<lambda>p q. fst p < fst q \<or> (fst p = fst q \<and> snd p < snd q)) (wedge_cells rows)"
proof (induction rows)
  case 0
  show ?case by (simp add: wedge_cells_def)
next
  case (Suc rows)
  have row: "sorted_wrt (\<lambda>p q. fst p < fst q \<or> (fst p = fst q \<and> snd p < snd q))
      (map (Pair rows) [0..<rows + 1])"
    by (simp add: sorted_wrt_map del: upt_Suc)
  have cross: "\<forall>x\<in>set (wedge_cells rows). \<forall>y\<in>set (map (Pair rows) [0..<rows + 1]).
      fst x < fst y \<or> (fst x = fst y \<and> snd x < snd y)"
    by (auto simp: set_wedge_cells)
  show ?case
    unfolding wedge_cells_Suc sorted_wrt_append using Suc row cross by blast
qed

lemma spec_wedge_length:
  "length (spec_wedge config pal par pp d0 d1 rows) = length (wedge_cells rows)"
  by (simp add: spec_wedge_def)

lemma spec_wedge_nth:
  "i < length (wedge_cells rows) \<Longrightarrow>
   spec_wedge config pal par pp d0 d1 rows ! i =
     \<lparr>path = map (translate_point
               (spec_shift d0 d1 (fst (wedge_cells rows ! i)) (snd (wedge_cells rows ! i)))) pp,
      color = palette_at pal (getColorIndex config par (fst (wedge_cells rows ! i))
               (snd (wedge_cells rows ! i)) 0),
      stroke = ''#888'',
      meta = empty_meta\<lparr>wedgeIndex := Some 0, tileIndex := Some i,
               meta_r := Some (fst (wedge_cells rows ! i)),
               meta_c := Some (snd (wedge_cells rows ! i))\<rparr>\<rparr>"
  by (simp add: spec_wedge_def nth_enumerate_eq split: prod.splits)

lemma prototile_path_eq:
  "path (hd (fst (generatePrototile m k n s))) = snd (prototile_walk m k n)"
  by (simp add: generatePrototile_result)

text \<open>
  C6. \<open>generateWedge(m, k, n, rows)\<close> returns \<open>rows\<cdot>(rows+1)/2\<close> polygons, one for each
  cell \<open>(r, c)\<close> with \<open>c \<le> r < rows\<close>, the cells taken in row-major order (first by
  \<open>r\<close>, then by \<open>c\<close>). The polygon number \<open>i\<close> has \<open>tileIndex = i\<close>, carries its
  cell in \<open>r\<close> and \<open>c\<close>, has \<open>wedgeIndex = 0\<close>, and its path is the prototile path with
  \<open>r\<cdot>d0 + c\<cdot>d1\<close> added to every point, where \<open>d0\<close> is the vector sum of the direction
  vectors of \<open>L\<close> without its final sentinel and \<open>d1\<close> is
  \<open>getVector(k) - getVector(0)\<close>.
\<close>

theorem wedge_tiles:
  "length (fst (generateWedge config m k n rows s)) = rows * (rows + 1) div 2
   \<and> length (wedge_cells rows) = length (fst (generateWedge config m k n rows s))
   \<and> set (wedge_cells rows) = {(r, c). c \<le> r \<and> r < rows}
   \<and> sorted_wrt (\<lambda>p q. fst p < fst q \<or> (fst p = fst q \<and> snd p < snd q)) (wedge_cells rows)
   \<and> (\<forall>i < length (wedge_cells rows).
        tileIndex (meta (fst (generateWedge config m k n rows s) ! i)) = Some i
        \<and> meta_r (meta (fst (generateWedge config m k n rows s) ! i))
            = Some (fst (wedge_cells rows ! i))
        \<and> meta_c (meta (fst (generateWedge config m k n rows s) ! i))
            = Some (snd (wedge_cells rows ! i))
        \<and> wedgeIndex (meta (fst (generateWedge config m k n rows s) ! i)) = Some 0
        \<and> path (fst (generateWedge config m k n rows s) ! i) =
            map (\<lambda>p. (fst p + (real (fst (wedge_cells rows ! i)) * fst (wedge_d0 m k n)
                              + real (snd (wedge_cells rows ! i)) * fst (wedge_d1 k n)),
                      snd p + (real (fst (wedge_cells rows ! i)) * snd (wedge_d0 m k n)
                              + real (snd (wedge_cells rows ! i)) * snd (wedge_d1 k n))))
              (path (hd (fst (generatePrototile m k n s)))))
   \<and> wedge_d0 m k n = vec_sum (map (getVector n) (butlast (fst (build_sequences m k))))
   \<and> wedge_d1 k n = (fst (getVector n k) - fst (getVector n 0),
                       snd (getVector n k) - snd (getVector n 0))"
proof (intro conjI allI impI)
  show "length (fst (generateWedge config m k n rows s)) = rows * (rows + 1) div 2"
    by (simp add: generateWedge_result spec_wedge_length length_wedge_cells)
  show "length (wedge_cells rows) = length (fst (generateWedge config m k n rows s))"
    by (simp add: generateWedge_result spec_wedge_length)
  show "set (wedge_cells rows) = {(r, c). c \<le> r \<and> r < rows}" by (rule set_wedge_cells)
  show "sorted_wrt (\<lambda>p q. fst p < fst q \<or> (fst p = fst q \<and> snd p < snd q)) (wedge_cells rows)"
    by (rule sorted_wedge_cells)
  show "wedge_d0 m k n = vec_sum (map (getVector n) (butlast (fst (build_sequences m k))))"
    by (simp add: wedge_d0_eq spec_d0_def build_sequences_eq)
  show "wedge_d1 k n = (fst (getVector n k) - fst (getVector n 0),
                       snd (getVector n k) - snd (getVector n 0))"
    by (simp add: wedge_d1_eq spec_d1_def)
next
  fix i assume i: "i < length (wedge_cells rows)"
  show "tileIndex (meta (fst (generateWedge config m k n rows s) ! i)) = Some i"
    using i by (simp add: generateWedge_result spec_wedge_nth)
  show "meta_r (meta (fst (generateWedge config m k n rows s) ! i))
            = Some (fst (wedge_cells rows ! i))"
    using i by (simp add: generateWedge_result spec_wedge_nth)
  show "meta_c (meta (fst (generateWedge config m k n rows s) ! i))
            = Some (snd (wedge_cells rows ! i))"
    using i by (simp add: generateWedge_result spec_wedge_nth)
  show "wedgeIndex (meta (fst (generateWedge config m k n rows s) ! i)) = Some 0"
    using i by (simp add: generateWedge_result spec_wedge_nth)
  show "path (fst (generateWedge config m k n rows s) ! i) =
            map (\<lambda>p. (fst p + (real (fst (wedge_cells rows ! i)) * fst (wedge_d0 m k n)
                              + real (snd (wedge_cells rows ! i)) * fst (wedge_d1 k n)),
                      snd p + (real (fst (wedge_cells rows ! i)) * snd (wedge_d0 m k n)
                              + real (snd (wedge_cells rows ! i)) * snd (wedge_d1 k n))))
              (path (hd (fst (generatePrototile m k n s))))"
    using i
    by (simp add: generateWedge_result spec_wedge_nth prototile_path_eq wedge_d0_eq wedge_d1_eq
          translate_point_def spec_shift_def)
qed

theorem wedge_tiles_witness:
  "wedge_cells 3 = [(0, 0), (1, 0), (1, 1), (2, 0), (2, 1), (2, 2)]
   \<and> length (fst (generateWedge TILING_CONFIG 3 7 14 3 initial_state)) = 6
   \<and> (4::nat) < length (wedge_cells 3)
   \<and> tileIndex (meta (fst (generateWedge TILING_CONFIG 3 7 14 3 initial_state) ! 4)) = Some 4
   \<and> meta_r (meta (fst (generateWedge TILING_CONFIG 3 7 14 3 initial_state) ! 4)) = Some 2
   \<and> meta_c (meta (fst (generateWedge TILING_CONFIG 3 7 14 3 initial_state) ! 4)) = Some 1"
proof -
  have c: "wedge_cells 3 = [(0, 0), (1, 0), (1, 1), (2, 0), (2, 1), (2, 2)]" by code_simp
  have l: "(4::nat) < length (wedge_cells 3)" by (simp add: c)
  from wedge_tiles[of TILING_CONFIG 3 7 14 3 initial_state] l show ?thesis
    by (simp add: c)
qed

section \<open>The colour index\<close>

text \<open>
  C9 (as amended). For a positive colour count, \<open>getColorIndex(r, c, wedgeIndex)\<close> is
  below the colour count. When one of the current parameters \<open>m\<close>, \<open>k\<close>, \<open>n\<close> is
  unset (0) it is \<open>wedgeIndex mod colorCount\<close>; when all three are set it is
  \<open>(baseIndex + startColor) mod colorCount\<close> with the base index reversed or not, where
  a key the matching configuration entry does not give defaults to
  \<open>reverse = (wedgeIndex mod 2 \<noteq> 0)\<close> and \<open>startColor = wedgeIndex mod colorCount\<close>.
\<close>

theorem color_index_range:
  assumes "0 < colorCount config"
  shows "getColorIndex config p r c wi < colorCount config
       \<and> getColorIndex config p r c wi =
           (if par_m p = 0 \<or> par_k p = 0 \<or> par_n p = 0 then wi mod colorCount config
            else spec_color_index (colorCount config)
                   (find_wedgeConfig (wedges config) (colorCount config) p wi) r c wi)
       \<and> spec_color_index (colorCount config) empty_rule r c wi =
           ((if wi mod 2 \<noteq> 0
             then (colorCount config - ((r + c) mod colorCount config)) mod colorCount config
             else (r + c) mod colorCount config) + wi mod colorCount config)
           mod colorCount config"
  using assms by (simp add: getColorIndex_def spec_color_index_def empty_rule_def Let_def)

theorem color_index_range_witness:
  "0 < colorCount TILING_CONFIG
   \<and> getColorIndex TILING_CONFIG \<lparr>par_m = 3, par_k = 7, par_n = 14\<rparr> 2 1 5
        < colorCount TILING_CONFIG
   \<and> getColorIndex TILING_CONFIG \<lparr>par_m = 3, par_k = 7, par_n = 14\<rparr> 2 1 5 = 2"
proof -
  have h: "0 < colorCount TILING_CONFIG" by (simp add: TILING_CONFIG_def)
  have v: "getColorIndex TILING_CONFIG \<lparr>par_m = 3, par_k = 7, par_n = 14\<rparr> 2 1 5 = 2"
    by (simp add: getColorIndex_def TILING_CONFIG_def rule_def Let_def)
  from color_index_range[OF h, of "\<lparr>par_m = 3, par_k = 7, par_n = 14\<rparr>" 2 1 5] h v
  show ?thesis by simp
qed

text \<open>
  With the parameters unset, as the constructor leaves them, the index is not the one the
  formula gives: at \<open>(r, c, wedgeIndex) = (1, 0, 0)\<close> and three colours the code returns
  0 and the formula 1.
\<close>

theorem color_index_unset_counterexample:
  "getColorIndex TILING_CONFIG (currentParams initial_state) 1 0 0 = 0
   \<and> spec_color_index (colorCount TILING_CONFIG)
        (find_wedgeConfig (wedges TILING_CONFIG) (colorCount TILING_CONFIG)
           (currentParams initial_state) 0) 1 0 0 = 1
   \<and> 0 < colorCount TILING_CONFIG"
  by (simp add: getColorIndex_def spec_color_index_def TILING_CONFIG_def initial_state_def
        empty_rule_def Let_def)

section \<open>The tiling placer\<close>

lemma transformed_poly_polygons [simp]:
  "transformed_poly config ox oy a i (s\<lparr>polygons := ps\<rparr>) = transformed_poly config ox oy a i s"
  by (rule ext) (simp add: transformed_poly_def)

lemma add_polys_char:
  "add_polys config ox oy a i ps s =
     s\<lparr>polygons := polygons s @ map (transformed_poly config ox oy a i s) ps\<rparr>"
  by (induction ps arbitrary: s) simp_all

lemma transformed_poly_eq:
  "a = real i * (2 * pi / real n) \<Longrightarrow>
   map (transformed_poly config ox oy a i s) ps =
     spec_wedge_copy config (palette s) (currentParams s) n i (ox, oy) ps"
  by (simp add: spec_wedge_copy_def transformed_poly_def translate_point_def rotate_point_def
        Let_def)

lemma addTransformedWedge_char:
  "length (palette s) = colorCount config \<Longrightarrow>
   addTransformedWedge config n ps ox oy i s =
     s\<lparr>polygons := polygons s @
          spec_wedge_copy config (palette s) (currentParams s) n i (ox, oy) ps\<rparr>"
proof -
  assume "length (palette s) = colorCount config"
  then have "addTransformedWedge config n ps ox oy i s =
      add_polys config ox oy (real i * (2 * pi / real n)) i ps s"
    by (simp add: addTransformedWedge_def Let_def)
  then show ?thesis by (simp only: add_polys_char transformed_poly_eq[OF refl])
qed

lemma find_j_star_char:
  "idx \<le> length front \<Longrightarrow> find_j_star front i idx =
     (if i \<in> set (drop idx front)
      then Some (idx + length (takeWhile (\<lambda>d. d \<noteq> i) (drop idx front))) else None)"
proof (induction front i idx rule: find_j_star.induct)
  case (1 front i idx)
  show ?case
  proof (cases "idx < length front")
    case False
    then show ?thesis by (simp add: find_j_star.simps[of front i idx])
  next
    case True
    have d: "drop idx front = front ! idx # drop (Suc idx) front"
      using True by (simp add: Cons_nth_drop_Suc)
    show ?thesis
    proof (cases "front ! idx = i")
      case eq: True
      with True show ?thesis by (simp add: find_j_star.simps[of front i idx] d)
    next
      case ne: False
      have le: "idx + 1 \<le> length front" using True by simp
      from True ne 1(1)[OF True ne le] show ?thesis
        by (auto simp: find_j_star.simps[of front i idx] d)
    qed
  qed
qed

lemma find_j_star_spec:
  "find_j_star front i 0 = (if i \<in> set front then Some (spec_j_star front i) else None)"
  by (simp add: find_j_star_char spec_j_star_def)

lemma length_takeWhile_neq:
  "i \<in> set xs \<Longrightarrow> length (takeWhile (\<lambda>d. d \<noteq> i) xs) < length xs"
  by (induction xs) auto

lemma spec_j_star_least:
  assumes "i \<in> set front"
  shows "spec_j_star front i < length front \<and> front ! spec_j_star front i = i
       \<and> (\<forall>j < spec_j_star front i. front ! j \<noteq> i)"
proof (intro conjI allI impI)
  show lt: "spec_j_star front i < length front"
    unfolding spec_j_star_def using assms by (rule length_takeWhile_neq)
  show "front ! spec_j_star front i = i"
    unfolding spec_j_star_def using nth_length_takeWhile[OF lt[unfolded spec_j_star_def]]
    by simp
  fix j assume "j < spec_j_star front i"
  then show "front ! j \<noteq> i"
    unfolding spec_j_star_def
    using nth_mem[of j "takeWhile (\<lambda>d. d \<noteq> i) front"] set_takeWhileD[of _ "\<lambda>d. d \<noteq> i" front]
    by (simp add: takeWhile_nth)
qed

lemma start_pos_loop_char:
  "idx \<le> j \<Longrightarrow> j \<le> length front \<Longrightarrow> start_pos_loop n front j idx st =
     (fst st + sum_list (map (\<lambda>d. fst (getVector n d)) (take (j - idx) (drop idx front))),
      snd st + sum_list (map (\<lambda>d. snd (getVector n d)) (take (j - idx) (drop idx front))))"
proof (induction n front j idx st rule: start_pos_loop.induct)
  case (1 n front j idx st)
  show ?case
  proof (cases "idx < j")
    case False
    with 1(2) have "idx = j" by simp
    then show ?thesis by (simp add: start_pos_loop.simps[of n front j j])
  next
    case True
    have d: "drop idx front = front ! idx # drop (Suc idx) front"
      using True 1(3) by (simp add: Cons_nth_drop_Suc)
    have t: "j - idx = Suc (j - Suc idx)" using True by simp
    have le: "idx + 1 \<le> j" using True by simp
    from True 1(1)[OF True refl le 1(3)] show ?thesis
      by (simp add: start_pos_loop.simps[of n front j idx] d t Let_def add.assoc)
  qed
qed

lemma start_pos_spec:
  "j \<le> length front \<Longrightarrow>
   start_pos_loop n front j 0 (0, 0) = vec_sum (map (getVector n) (take j front))"
  by (simp add: start_pos_loop_char vec_sum_def comp_def)

lemma place_wedge_found:
  assumes "i \<in> set front" and "length (palette s) = colorCount config"
  shows "place_wedge config k n base i (front, s) =
     (front[spec_j_star front i := i + k],
      s\<lparr>polygons := polygons s @
           spec_wedge_copy config (palette s) (currentParams s) n i
             (vec_sum (map (getVector n) (take (spec_j_star front i) front))) base\<rparr>)"
proof -
  have lt: "spec_j_star front i \<le> length front"
    using spec_j_star_least[OF assms(1)] by simp
  obtain x y where v: "vec_sum (map (getVector n) (take (spec_j_star front i) front)) = (x, y)"
    by (cases "vec_sum (map (getVector n) (take (spec_j_star front i) front))")
  show ?thesis
    using assms
    by (simp add: place_wedge_def find_j_star_spec start_pos_spec[OF lt] v
          addTransformedWedge_char Let_def)
qed

lemma place_wedge_missing:
  assumes "i \<notin> set front"
  shows "place_wedge config k n base i (front, s) =
     (front, s\<lparr>console := console s @ [Direction_not_found i]\<rparr>)"
  using assms by (simp add: place_wedge_def find_j_star_spec Let_def)

lemma place_wedge_spec:
  assumes "length (palette s) = colorCount config"
    and "console s = c0 @ map Direction_not_found K"
  shows "place_wedge config k n base i (front, s) =
     (let R = spec_place config (palette s) (currentParams s) k n base i (front, polygons s, K)
      in (fst R, s\<lparr>polygons := fst (snd R),
                    console := c0 @ map Direction_not_found (snd (snd R))\<rparr>))"
proof (cases "i \<in> set front")
  case True
  show ?thesis
    using True assms(1)
    by (simp add: place_wedge_found spec_place_def Let_def assms(2)[symmetric])
next
  case False
  then show ?thesis
    using assms(2) by (simp add: place_wedge_missing spec_place_def Let_def)
qed

lemma wedge_loop_spec:
  assumes "length (palette (snd st)) = colorCount config"
    and "console (snd st) = c0 @ map Direction_not_found K"
    and "pal = palette (snd st)" and "par = currentParams (snd st)"
  shows "wedge_loop config k n base w i st =
     (let R = foldl (\<lambda>x j. spec_place config pal par k n base j x)
                (fst st, polygons (snd st), K) [i..<nat \<lceil>w\<rceil>]
      in (fst R, (snd st)\<lparr>polygons := fst (snd R),
                           console := c0 @ map Direction_not_found (snd (snd R))\<rparr>))"
  using assms
proof (induction config k n base w i st arbitrary: K rule: wedge_loop.induct)
  case (1 config k n base w i st)
  obtain front s where st: "st = (front, s)" by (cases st)
  show ?case
  proof (cases "real i < w")
    case False
    then have "nat \<lceil>w\<rceil> \<le> i" by linarith
    then have e: "[i..<nat \<lceil>w\<rceil>] = []" by simp
    have "s\<lparr>polygons := polygons s, console := console s\<rparr> = s" by simp
    then show ?thesis
      using False 1(3)
      by (simp add: wedge_loop.simps[of config k n base w i] e st 1(3)[symmetric])
  next
    case True
    then have lt: "i < nat \<lceil>w\<rceil>" by linarith
    have up: "[i..<nat \<lceil>w\<rceil>] = i # [Suc i..<nat \<lceil>w\<rceil>]"
      using lt by (simp add: upt_conv_Cons)
    let ?R = "spec_place config pal par k n base i (front, polygons s, K)"
    let ?st' = "place_wedge config k n base i (front, s)"
    note prems = 1(2,3,4,5)[unfolded st, simplified]
    have pw: "?st' = (fst ?R, s\<lparr>polygons := fst (snd ?R),
                    console := c0 @ map Direction_not_found (snd (snd ?R))\<rparr>)"
      using place_wedge_spec[of s config c0 K k n base i front] prems
      by (simp add: Let_def)
    have a1: "length (palette (snd ?st')) = colorCount config" using prems(1) by (simp add: pw)
    have a2: "console (snd ?st') = c0 @ map Direction_not_found (snd (snd ?R))"
      by (simp add: pw)
    have a3: "pal = palette (snd ?st')" using prems(3) by (simp add: pw)
    have a4: "par = currentParams (snd ?st')" using prems(4) by (simp add: pw)
    have "wedge_loop config k n base w i (front, s) =
        wedge_loop config k n base w (i + 1) ?st'"
      using True by (simp add: wedge_loop.simps[of config k n base w i])
    also have "\<dots> =
      (let R = foldl (\<lambda>x j. spec_place config pal par k n base j x)
                (fst ?st', polygons (snd ?st'), snd (snd ?R)) [i + 1..<nat \<lceil>w\<rceil>]
       in (fst R, (snd ?st')\<lparr>polygons := fst (snd R),
                           console := c0 @ map Direction_not_found (snd (snd R))\<rparr>))"
      by (rule 1(1)[unfolded st, OF True a1 a2 a3 a4])
    finally show ?thesis
      unfolding st by (simp add: up pw Let_def del: upt_Suc)
  qed
qed

text \<open>Wedge 0 is the base wedge itself: rotation by 0 and no shift change nothing.\<close>

lemma spec_wedge_copy_zero:
  "spec_wedge_copy config pal par n 0 (0, 0) (spec_wedge config pal par pp d0 d1 rows) =
     spec_wedge config pal par pp d0 d1 rows"
proof -
  have id: "(\<lambda>pt. translate_point (0, 0) (rotate_point (real (0::nat) * (2 * pi / real n)) pt))
      = (\<lambda>pt. pt)"
    by (rule ext) (simp add: translate_point_def rotate_point_def)
  show ?thesis
    unfolding spec_wedge_copy_def id
    by (simp add: spec_wedge_def split_def empty_meta_def)
qed

lemma spec_wedge_copy_Nil [simp]: "spec_wedge_copy config pal par n i off [] = []"
  by (simp add: spec_wedge_copy_def)

lemma pass_palette_length [simp]: "length (pass_palette config s) = colorCount config"
  by (simp add: pass_palette_def)

lemma addTransformedWedge_zero:
  assumes "length (palette s) = colorCount config" and "polygons s = []"
    and "base = spec_wedge config (palette s) (currentParams s) pp d0 d1 rows"
  shows "addTransformedWedge config n base 0 0 0 s = s\<lparr>polygons := base\<rparr>"
  unfolding assms(3)
  using assms(1,2) by (simp add: addTransformedWedge_char spec_wedge_copy_zero)

lemma primary_pass_spec:
  assumes "length (palette s) = colorCount config" and "polygons s = []"
    and "base = spec_wedge config (palette s) (currentParams s) pp d0 d1 rows"
  shows "primary_pass config m k n isOffset base s =
     (let R = spec_primary config (palette s) (currentParams s) m k n isOffset base
      in (fst R, s\<lparr>polygons := fst (snd R),
                    console := console s @ map Direction_not_found (snd (snd R))\<rparr>))"
proof -
  let ?s1 = "s\<lparr>polygons := base\<rparr>"
  let ?w = "if isOffset then real n / 2 else real n"
  have s1: "addTransformedWedge config n base 0 0 0 s = ?s1"
    by (rule addTransformedWedge_zero[OF assms])
  have w: "w_limit_of n isOffset = ?w"
    by (simp add: w_limit_of_def)
  have "primary_pass config m k n isOffset base s =
      wedge_loop config k n base ?w 1 (butlast (spec_U m k), ?s1)"
    by (simp add: primary_pass_def s1 w front_init_eq Let_def)
  also have "\<dots> =
     (let R = foldl (\<lambda>x j. spec_place config (palette s) (currentParams s) k n base j x)
                (fst (butlast (spec_U m k), ?s1), polygons (snd (butlast (spec_U m k), ?s1)), [])
                [1..<nat \<lceil>?w\<rceil>]
      in (fst R, (snd (butlast (spec_U m k), ?s1))\<lparr>polygons := fst (snd R),
                      console := console s @ map Direction_not_found (snd (snd R))\<rparr>))"
    by (rule wedge_loop_spec) (simp_all add: assms(1))
  finally show ?thesis by (simp add: spec_primary_def Let_def)
qed


lemma reflect_polys_char:
  "reflect_polys pivot ps s = s\<lparr>polygons := polygons s @ map (reflected_poly pivot) ps\<rparr>"
  by (induction ps arbitrary: s) simp_all

lemma offset_pass_char:
  "offset_pass n s =
     s\<lparr>polygons := polygons s @
          map (reflected_poly (fst (getVector n 0) / 2, snd (getVector n 0) / 2)) (polygons s)\<rparr>"
  by (simp add: offset_pass_def reflect_polys_char Let_def)

lemma spec_place_empty_base:
  "fst (snd (spec_place config pal par k n [] i st)) = fst (snd st)"
  by (simp add: spec_place_def Let_def)

lemma foldl_spec_place_empty_base:
  "fst (snd (foldl (\<lambda>x j. spec_place config pal par k n [] j x) st js)) = fst (snd st)"
  by (induction js arbitrary: st) (simp_all add: spec_place_empty_base)

lemma spec_primary_empty_base:
  "fst (snd (spec_primary config pal par m k n isOffset [])) = []"
  by (simp add: spec_primary_def foldl_spec_place_empty_base)

lemma generateWedge_params:
  "generateWedge config m k n rows (s\<lparr>currentParams := p\<rparr>) = generateWedge config m k n rows s"
proof (rule prod_eqI)
  show f: "fst (generateWedge config m k n rows (s\<lparr>currentParams := p\<rparr>)) =
      fst (generateWedge config m k n rows s)"
    by (simp add: generateWedge_result pass_palette_def)
  show "snd (generateWedge config m k n rows (s\<lparr>currentParams := p\<rparr>)) =
      snd (generateWedge config m k n rows s)"
    unfolding generateWedge_state f by (simp add: pass_palette_def)
qed


text \<open>What \<open>generateTiling\<close> returns.\<close>

lemma generateTiling_result:
  "fst (generateTiling config m k n rows isOffset s) =
     (let base = fst (generateWedge config m k n rows s);
          P = fst (snd (spec_primary config (pass_palette config s)
                 \<lparr>par_m = m, par_k = k, par_n = n\<rparr> m k n isOffset base))
      in if isOffset
         then P @ map (reflected_poly (fst (getVector n 0) / 2, snd (getVector n 0) / 2)) P
         else P)"
proof -
  let ?base = "fst (generateWedge config m k n rows s)"
  let ?s2 = "snd (generateWedge config m k n rows s)"
  let ?par = "\<lparr>par_m = m, par_k = k, par_n = n\<rparr>"
  show ?thesis
  proof (cases "?base = []")
    case True
    then show ?thesis
      by (simp add: generateTiling_def generateWedge_params Let_def split_def
            spec_primary_empty_base)
  next
    case False
    let ?s3 = "?s2\<lparr>polygons := []\<rparr>"
    have p1: "palette ?s3 = pass_palette config s"
      by (simp add: generateWedge_state)
    have p2: "currentParams ?s3 = ?par"
      by (simp add: generateWedge_state)
    have pp: "primary_pass config m k n isOffset ?base ?s3 =
     (let R = spec_primary config (palette ?s3) (currentParams ?s3) m k n isOffset ?base
      in (fst R, ?s3\<lparr>polygons := fst (snd R),
                    console := console ?s3 @ map Direction_not_found (snd (snd R))\<rparr>))"
    proof (rule primary_pass_spec)
      show "length (palette ?s3) = colorCount config" unfolding p1 by simp
      show "polygons ?s3 = []" by simp
      show "?base = spec_wedge config (palette ?s3) (currentParams ?s3)
          (snd (prototile_walk m k n)) (spec_d0 m k n) (spec_d1 k n) rows"
        unfolding p1 p2 by (rule generateWedge_result)
    qed
    have gt: "generateTiling config m k n rows isOffset s =
        (let s4 = snd (primary_pass config m k n isOffset ?base ?s3);
             s5 = (if isOffset then offset_pass n s4 else s4)
         in (polygons s5, s5))"
      using False by (simp add: generateTiling_def generateWedge_params Let_def split_def)
    show ?thesis
      unfolding gt pp p1 p2 by (simp add: Let_def offset_pass_char)
  qed
qed

subsection \<open>The front\<close>

lemma generatePalette_fields [simp]:
  "console (generatePalette config a b s) = console s"
  "polygons (generatePalette config a b s) = polygons s"
  "currentParams (generatePalette config a b s) = currentParams s"
  by (simp_all add: generatePalette_def Let_def)

lemma addTransformedWedge_console [simp]:
  "console (addTransformedWedge config n ps ox oy i s) = console s"
  by (simp add: addTransformedWedge_def add_polys_char Let_def)

lemma addTransformedWedge_polygons:
  "\<exists>new. polygons (addTransformedWedge config n ps ox oy i s) = polygons s @ new
     \<and> length new = length ps \<and> (\<forall>p\<in>set new. wedgeIndex (meta p) = Some i)"
  by (simp add: addTransformedWedge_def add_polys_char Let_def transformed_poly_def)

lemma place_wedge_front:
  "fst (place_wedge config k n base i (front, s)) =
     (if i \<in> set front then front[spec_j_star front i := i + k] else front)"
  by (simp add: place_wedge_def find_j_star_spec Let_def)

lemma place_wedge_console:
  "console (snd (place_wedge config k n base i (front, s))) =
     console s @ (if i \<in> set front then [] else [Direction_not_found i])"
  by (simp add: place_wedge_def find_j_star_spec Let_def)

lemma place_wedge_polygons:
  "\<exists>new. polygons (snd (place_wedge config k n base i (front, s))) = polygons s @ new
     \<and> (i \<in> set front \<longrightarrow> length new = length base
          \<and> (\<forall>p\<in>set new. wedgeIndex (meta p) = Some i))
     \<and> (i \<notin> set front \<longrightarrow> new = [])"
proof (cases "i \<in> set front")
  case True
  then show ?thesis
    using addTransformedWedge_polygons[of config n base _ _ i s]
    by (simp add: place_wedge_def find_j_star_spec Let_def)
next
  case False
  then show ?thesis by (simp add: place_wedge_def find_j_star_spec Let_def)
qed

lemma wedge_loop_front_inv:
  assumes "base \<noteq> []"
  shows "length (fst (wedge_loop config k n base w i st)) = length (fst st)
     \<and> (\<forall>x\<in>set (fst (wedge_loop config k n base w i st)).
           x \<in> set (fst st) \<or>
           (\<exists>j. i \<le> j \<and> real j < w \<and> x = j + k \<and>
                (\<exists>p\<in>set (polygons (snd (wedge_loop config k n base w i st))).
                    wedgeIndex (meta p) = Some j)))
     \<and> (\<exists>new. polygons (snd (wedge_loop config k n base w i st)) = polygons (snd st) @ new)"
  using assms
proof (induction config k n base w i st rule: wedge_loop.induct)
  case (1 config k n base w i st)
  obtain front s where st: "st = (front, s)" by (cases st)
  show ?case
  proof (cases "real i < w")
    case False
    then show ?thesis by (simp add: wedge_loop.simps[of config k n base w i])
  next
    case True
    let ?st1 = "place_wedge config k n base i (front, s)"
    let ?res = "wedge_loop config k n base w (i + 1) ?st1"
    have unf: "wedge_loop config k n base w i st = ?res"
      using True by (simp add: wedge_loop.simps[of config k n base w i] st)
    note IH = 1(1)[unfolded st, OF True 1(2)]
    from IH have len: "length (fst ?res) = length (fst ?st1)" by blast
    from IH have el: "\<forall>x\<in>set (fst ?res). x \<in> set (fst ?st1) \<or>
           (\<exists>j. i + 1 \<le> j \<and> real j < w \<and> x = j + k \<and>
                (\<exists>p\<in>set (polygons (snd ?res)). wedgeIndex (meta p) = Some j))" by blast
    from IH obtain new2 where n2: "polygons (snd ?res) = polygons (snd ?st1) @ new2" by blast
    obtain new1 where n1: "polygons (snd ?st1) = polygons s @ new1"
      and n1i: "i \<in> set front \<longrightarrow> length new1 = length base
          \<and> (\<forall>p\<in>set new1. wedgeIndex (meta p) = Some i)"
      using place_wedge_polygons[of config k n base i front s] by blast
    have c1: "length (fst ?res) = length (fst st)"
      using len by (simp add: place_wedge_front st)
    have c3: "\<exists>new. polygons (snd ?res) = polygons (snd st) @ new"
      using n1 n2 by (simp add: st)
    have c2: "\<forall>x\<in>set (fst ?res). x \<in> set (fst st) \<or>
           (\<exists>j. i \<le> j \<and> real j < w \<and> x = j + k \<and>
                (\<exists>p\<in>set (polygons (snd ?res)). wedgeIndex (meta p) = Some j))"
    proof
      fix x assume x: "x \<in> set (fst ?res)"
      from el x consider (old) "x \<in> set (fst ?st1)"
        | (later) "\<exists>j. i + 1 \<le> j \<and> real j < w \<and> x = j + k \<and>
                (\<exists>p\<in>set (polygons (snd ?res)). wedgeIndex (meta p) = Some j)"
        by blast
      then show "x \<in> set (fst st) \<or>
           (\<exists>j. i \<le> j \<and> real j < w \<and> x = j + k \<and>
                (\<exists>p\<in>set (polygons (snd ?res)). wedgeIndex (meta p) = Some j))"
      proof cases
        case later
        then obtain j where "i + 1 \<le> j" "real j < w" "x = j + k"
          "\<exists>p\<in>set (polygons (snd ?res)). wedgeIndex (meta p) = Some j" by blast
        then have "i \<le> j \<and> real j < w \<and> x = j + k \<and>
                (\<exists>p\<in>set (polygons (snd ?res)). wedgeIndex (meta p) = Some j)" by simp
        then show ?thesis by blast
      next
        case old
        show ?thesis
        proof (cases "i \<in> set front")
          case False
          with old show ?thesis by (simp add: place_wedge_front st)
        next
          case inf: True
          with old have "x \<in> set (front[spec_j_star front i := i + k])"
            by (simp add: place_wedge_front)
          then have "x \<in> set front \<or> x = i + k"
            using set_update_subset_insert[of front "spec_j_star front i" "i + k"] by blast
          then show ?thesis
          proof
            assume "x \<in> set front"
            then show ?thesis by (simp add: st)
          next
            assume xi: "x = i + k"
            from inf n1i 1(2) have "new1 \<noteq> []" "\<forall>p\<in>set new1. wedgeIndex (meta p) = Some i"
              by auto
            then obtain p where "p \<in> set new1" "wedgeIndex (meta p) = Some i"
              by (cases new1) auto
            then have "\<exists>p\<in>set (polygons (snd ?res)). wedgeIndex (meta p) = Some i"
              using n1 n2 by auto
            with xi True show ?thesis by blast
          qed
        qed
      qed
    qed
    show ?thesis unfolding unf using c1 c2 c3 by blast
  qed
qed

lemma wedge_loop_split:
  "a \<le> i \<Longrightarrow> real i \<le> w \<Longrightarrow>
   wedge_loop config k n base w a st =
     wedge_loop config k n base w i (wedge_loop config k n base (real i) a st)"
proof (induction config k n base "real i" a st rule: wedge_loop.induct)
  case (1 config k n base a st)
  show ?case
  proof (cases "a < i")
    case False
    with 1(2) have "a = i" by simp
    then show ?thesis by (simp add: wedge_loop.simps[of config k n base "real i" i])
  next
    case True
    then have r: "real a < real i" by simp
    then have rw: "real a < w" using 1(3) by simp
    have le: "a + 1 \<le> i" using True by simp
    show ?thesis
      using 1(1)[OF r le 1(3)] r rw
      by (simp add: wedge_loop.simps[of config k n base w a]
            wedge_loop.simps[of config k n base "real i" a])
  qed
qed


text \<open>
  C8. When no entry of the front equals the wedge index \<open>i\<close> (with \<open>1 \<le> i < w_limit\<close>),
  the iteration for \<open>i\<close> only prints the warning: it adds no polygon and leaves the front
  as it is, and the loop goes on with \<open>i + 1\<close> from that state, so the call returns the
  polygon list of the other wedges.
\<close>

theorem unmatched_wedge_skipped:
  assumes "1 \<le> i" and "real i < w" and "i \<notin> set front"
  shows "place_wedge config k n base i (front, s) =
           (front, s\<lparr>console := console s @ [Direction_not_found i]\<rparr>)
       \<and> polygons (snd (place_wedge config k n base i (front, s))) = polygons s
       \<and> wedge_loop config k n base w i (front, s) =
           wedge_loop config k n base w (i + 1)
             (front, s\<lparr>console := console s @ [Direction_not_found i]\<rparr>)"
proof -
  have p: "place_wedge config k n base i (front, s) =
           (front, s\<lparr>console := console s @ [Direction_not_found i]\<rparr>)"
    by (rule place_wedge_missing[OF assms(3)])
  have "wedge_loop config k n base w i (front, s) =
      wedge_loop config k n base w (i + 1) (place_wedge config k n base i (front, s))"
    using assms(2) by (simp add: wedge_loop.simps[of config k n base w i])
  then show ?thesis by (simp add: p)
qed

theorem unmatched_wedge_skipped_witness:
  "(1::nat) \<le> 1 \<and> real 1 < 4 \<and> 1 \<notin> set (front_init 2 4)
   \<and> front_init 2 4 = [4, 2]
   \<and> place_wedge TILING_CONFIG 4 4 [] 1 (front_init 2 4, initial_state) =
        (front_init 2 4, initial_state\<lparr>console := console initial_state @ [Direction_not_found 1]\<rparr>)
   \<and> wedge_loop TILING_CONFIG 4 4 [] 4 1 (front_init 2 4, initial_state) =
        wedge_loop TILING_CONFIG 4 4 [] 4 (1 + 1)
          (front_init 2 4, initial_state\<lparr>console := console initial_state @ [Direction_not_found 1]\<rparr>)"
proof -
  have f: "front_init 2 4 = [4, 2]" by code_simp
  have h: "1 \<notin> set (front_init 2 4)" by (simp add: f)
  have w: "real 1 < 4" by simp
  from unmatched_wedge_skipped[OF order_refl w h, of TILING_CONFIG 4 4 "[]" initial_state] f h
  show ?thesis by simp
qed

text \<open>
  C10. In the wedge loop of \<open>generateTiling\<close> (the base wedge is not empty there) the
  front keeps the length it starts with, the length of \<open>u_seq\<close> minus one; an iteration
  changes the front only by writing \<open>i + k\<close> at the index \<open>j_star\<close> it found, and not at
  all when it found none; so every entry of the front is an entry of \<open>u_seq\<close> or
  \<open>j + k\<close> for a wedge \<open>j\<close> with \<open>1 \<le> j < w_limit\<close> whose polygons are in the output.
  This holds for every bound of the loop, and the state at the start of iteration \<open>i\<close> is
  the result of the loop with bound \<open>i\<close>, so it holds throughout the run. Entries are
  natural numbers.
\<close>

theorem front_invariant:
  assumes "base \<noteq> []"
  shows "length (fst (wedge_loop config k n base w 1 (front_init m k, s)))
           = length (tiling_u_seq m k) - 1
     \<and> (\<forall>x\<in>set (fst (wedge_loop config k n base w 1 (front_init m k, s))).
           x \<in> set (tiling_u_seq m k) \<or>
           (\<exists>j. 1 \<le> j \<and> real j < w \<and> x = j + k \<and>
                (\<exists>p\<in>set (polygons (snd (wedge_loop config k n base w 1 (front_init m k, s)))).
                    wedgeIndex (meta p) = Some j)))
     \<and> (\<forall>i. 1 \<le> i \<and> real i \<le> w \<longrightarrow>
           wedge_loop config k n base w 1 (front_init m k, s) =
             wedge_loop config k n base w i
               (wedge_loop config k n base (real i) 1 (front_init m k, s)))
     \<and> (\<forall>front i st. fst (place_wedge config k n base i (front, st)) =
           (case find_j_star front i 0 of None \<Rightarrow> front
            | Some j_star \<Rightarrow> front[j_star := i + k]))
     \<and> fst (primary_pass config m k n isOffset base s) =
         fst (wedge_loop config k n base (w_limit_of n isOffset) 1
               (front_init m k, addTransformedWedge config n base 0 0 0 s))"
proof (intro conjI allI impI ballI)
  note inv = wedge_loop_front_inv[OF assms, of config k n w 1 "(front_init m k, s)"]
  show "length (fst (wedge_loop config k n base w 1 (front_init m k, s)))
           = length (tiling_u_seq m k) - 1"
    using inv by (simp add: front_init_def Let_def)
  show "fst (primary_pass config m k n isOffset base s) =
         fst (wedge_loop config k n base (w_limit_of n isOffset) 1
               (front_init m k, addTransformedWedge config n base 0 0 0 s))"
    by (simp add: primary_pass_def Let_def)
  show "fst (place_wedge config k n base i (front, st)) =
           (case find_j_star front i 0 of None \<Rightarrow> front
            | Some j_star \<Rightarrow> front[j_star := i + k])" for front i st
    by (simp add: place_wedge_def Let_def split: option.splits)
  show "wedge_loop config k n base w 1 (front_init m k, s) =
             wedge_loop config k n base w i
               (wedge_loop config k n base (real i) 1 (front_init m k, s))"
    if "1 \<le> i \<and> real i \<le> w" for i
    using that by (intro wedge_loop_split) simp_all
  fix x assume "x \<in> set (fst (wedge_loop config k n base w 1 (front_init m k, s)))"
  with inv have "x \<in> set (front_init m k) \<or>
           (\<exists>j. 1 \<le> j \<and> real j < w \<and> x = j + k \<and>
                (\<exists>p\<in>set (polygons (snd (wedge_loop config k n base w 1 (front_init m k, s)))).
                    wedgeIndex (meta p) = Some j))"
    by simp
  moreover have "x \<in> set (front_init m k) \<Longrightarrow> x \<in> set (tiling_u_seq m k)"
    by (simp add: front_init_def Let_def) (rule in_set_takeD)
  ultimately show "x \<in> set (tiling_u_seq m k) \<or>
           (\<exists>j. 1 \<le> j \<and> real j < w \<and> x = j + k \<and>
                (\<exists>p\<in>set (polygons (snd (wedge_loop config k n base w 1 (front_init m k, s)))).
                    wedgeIndex (meta p) = Some j))"
    by blast
qed

lemma wedge_loop_front_fold:
  "fst (wedge_loop config k n base w i st) =
     foldl (\<lambda>f j. if j \<in> set f then f[spec_j_star f j := j + k] else f) (fst st)
       [i..<nat \<lceil>w\<rceil>]"
proof (induction config k n base w i st rule: wedge_loop.induct)
  case (1 config k n base w i st)
  obtain front s where st: "st = (front, s)" by (cases st)
  show ?case
  proof (cases "real i < w")
    case False
    then have "nat \<lceil>w\<rceil> \<le> i" by linarith
    then show ?thesis using False by (simp add: wedge_loop.simps[of config k n base w i])
  next
    case True
    then have "i < nat \<lceil>w\<rceil>" by linarith
    then have up: "[i..<nat \<lceil>w\<rceil>] = i # [Suc i..<nat \<lceil>w\<rceil>]"
      by (simp add: upt_conv_Cons)
    show ?thesis
      using True 1(1)[OF True]
      by (simp add: wedge_loop.simps[of config k n base w i] up st place_wedge_front
            del: upt_Suc)
  qed
qed

theorem front_invariant_witness:
  "[\<lparr>path = [], color = Undefined_color, stroke = [], meta = empty_meta\<rparr>] \<noteq> []
   \<and> fst (wedge_loop TILING_CONFIG 3 6 [\<lparr>path = [], color = Undefined_color, stroke = [], meta = empty_meta\<rparr>] 6 1 (front_init 1 3, initial_state)) = [6, 7, 8]
   \<and> length (fst (wedge_loop TILING_CONFIG 3 6 [\<lparr>path = [], color = Undefined_color, stroke = [], meta = empty_meta\<rparr>] 6 1 (front_init 1 3, initial_state))) = 3
   \<and> (6::nat) \<in> set (fst (wedge_loop TILING_CONFIG 3 6 [\<lparr>path = [], color = Undefined_color, stroke = [], meta = empty_meta\<rparr>] 6 1 (front_init 1 3, initial_state)))
   \<and> ((6::nat) \<in> set (tiling_u_seq 1 3) \<or>
        (\<exists>j. 1 \<le> j \<and> real j < 6 \<and> (6::nat) = j + 3 \<and>
             (\<exists>p\<in>set (polygons (snd (wedge_loop TILING_CONFIG 3 6 [\<lparr>path = [], color = Undefined_color, stroke = [], meta = empty_meta\<rparr>] 6 1 (front_init 1 3, initial_state)))). wedgeIndex (meta p) = Some j)))
   \<and> (1::nat) \<le> 2 \<and> real 2 \<le> (6::real)
   \<and> (wedge_loop TILING_CONFIG 3 6 [\<lparr>path = [], color = Undefined_color, stroke = [], meta = empty_meta\<rparr>] 6 1 (front_init 1 3, initial_state)) = wedge_loop TILING_CONFIG 3 6 [\<lparr>path = [], color = Undefined_color, stroke = [], meta = empty_meta\<rparr>] 6 2
             (wedge_loop TILING_CONFIG 3 6 [\<lparr>path = [], color = Undefined_color, stroke = [], meta = empty_meta\<rparr>] (real 2) 1 (front_init 1 3, initial_state))"
proof -
  have u: "length (tiling_u_seq 1 3) - 1 = 3" by code_simp
  have ne: "[\<lparr>path = [], color = Undefined_color, stroke = [], meta = empty_meta\<rparr>] \<noteq> []"
    by simp
  have f0: "front_init 1 3 = [3, 1, 2]" by code_simp
  have c: "nat \<lceil>6::real\<rceil> = 6" by simp
  have ev: "foldl (\<lambda>f j. if j \<in> set f then f[spec_j_star f j := j + 3] else f) [3, 1, 2] [1..<6]
      = [6, 7, 8]"
    by code_simp
  have fr: "fst (wedge_loop TILING_CONFIG 3 6 [\<lparr>path = [], color = Undefined_color, stroke = [], meta = empty_meta\<rparr>] 6 1 (front_init 1 3, initial_state)) = [6, 7, 8]"
    unfolding wedge_loop_front_fold fst_conv f0 c by (rule ev)
  have x: "(6::nat) \<in> set (fst (wedge_loop TILING_CONFIG 3 6 [\<lparr>path = [], color = Undefined_color, stroke = [], meta = empty_meta\<rparr>] 6 1 (front_init 1 3, initial_state)))" unfolding fr by simp
  have i: "(1::nat) \<le> 2 \<and> real 2 \<le> (6::real)" by simp
  note t = front_invariant[OF ne, of TILING_CONFIG 3 6 6 1 initial_state]
  note t1 = t[THEN conjunct1, unfolded u]
  note t2 = t[THEN conjunct2, THEN conjunct1, rule_format, OF x]
  note t3 = t[THEN conjunct2, THEN conjunct2, THEN conjunct1, rule_format, OF i]
  show ?thesis
    by (intro conjI ne fr t1 x t2 i[THEN conjunct1] i[THEN conjunct2] t3)
qed

subsection \<open>The placed polygons\<close>

lemma length_spec_wedge_copy [simp]:
  "length (spec_wedge_copy config pal par n i off base) = length base"
  by (simp add: spec_wedge_copy_def)

lemma spec_wedge_copy_index:
  "p \<in> set (spec_wedge_copy config pal par n i off base) \<Longrightarrow> wedgeIndex (meta p) = Some i"
  by (auto simp: spec_wedge_copy_def)

lemma spec_wedge_index:
  "p \<in> set (spec_wedge config pal par pp d0 d1 rows) \<Longrightarrow> wedgeIndex (meta p) = Some 0"
  by (auto simp: spec_wedge_def empty_meta_def)

lemma spec_place_placed:
  "\<exists>new. fst (snd (spec_place config pal par k n base i st)) = fst (snd st) @ new
     \<and> (\<forall>p\<in>set new. wedgeIndex (meta p) = Some i)"
  by (auto simp: spec_place_def Let_def spec_wedge_copy_index)

lemma sorted_all_eq: "\<forall>x\<in>set xs. x = (c::nat) \<Longrightarrow> sorted xs"
  by (induction xs) auto

lemma foldl_spec_place_sorted:
  assumes "sorted (map (\<lambda>p. the (wedgeIndex (meta p))) (fst (snd st)))"
    and "\<forall>p\<in>set (fst (snd st)). \<forall>j\<in>set js. the (wedgeIndex (meta p)) \<le> j"
    and "\<forall>p\<in>set (fst (snd st)). wedgeIndex (meta p) \<noteq> None"
    and "sorted js"
  shows "sorted (map (\<lambda>p. the (wedgeIndex (meta p)))
            (fst (snd (foldl (\<lambda>x j. spec_place config pal par k n base j x) st js))))
       \<and> (\<forall>p\<in>set (fst (snd (foldl (\<lambda>x j. spec_place config pal par k n base j x) st js))).
             wedgeIndex (meta p) \<noteq> None)
       \<and> (\<exists>new. fst (snd (foldl (\<lambda>x j. spec_place config pal par k n base j x) st js))
             = fst (snd st) @ new)"
  using assms
proof (induction js arbitrary: st)
  case Nil
  then show ?case by simp
next
  case (Cons j js)
  let ?st1 = "spec_place config pal par k n base j st"
  obtain new where new: "fst (snd ?st1) = fst (snd st) @ new"
    and ni: "\<forall>p\<in>set new. wedgeIndex (meta p) = Some j"
    using spec_place_placed[of config pal par k n base j st] by blast
  have s1: "sorted (map (\<lambda>p. the (wedgeIndex (meta p))) (fst (snd ?st1)))"
  proof -
    have "sorted (map (\<lambda>p. the (wedgeIndex (meta p))) new)"
      using ni by (intro sorted_all_eq[of _ j]) auto
    then show ?thesis
      unfolding new using Cons.prems(1,2) ni by (auto simp: sorted_append)
  qed
  have s2: "\<forall>p\<in>set (fst (snd ?st1)). \<forall>j'\<in>set js. the (wedgeIndex (meta p)) \<le> j'"
    unfolding new using Cons.prems(2,4) ni by auto
  have s3: "\<forall>p\<in>set (fst (snd ?st1)). wedgeIndex (meta p) \<noteq> None"
    unfolding new using Cons.prems(3) ni by auto
  have s4: "sorted js" using Cons.prems(4) by simp
  from Cons.IH[OF s1 s2 s3 s4] show ?case
    by (auto simp: new)
qed

lemma spec_primary_placed:
  assumes "base = spec_wedge config pal par pp d0 d1 rows"
  shows "sorted (map (\<lambda>p. the (wedgeIndex (meta p)))
            (fst (snd (spec_primary config pal par m k n isOffset base))))
       \<and> (\<forall>p\<in>set (fst (snd (spec_primary config pal par m k n isOffset base))).
             wedgeIndex (meta p) \<noteq> None)
       \<and> take (length base) (fst (snd (spec_primary config pal par m k n isOffset base))) = base"
proof -
  let ?js = "[1..<nat \<lceil>if isOffset then real n / 2 else real n\<rceil>]"
  let ?st = "(butlast (spec_U m k), base, [])"
  have a1: "sorted (map (\<lambda>p. the (wedgeIndex (meta p))) (fst (snd ?st)))"
    using spec_wedge_index[of _ config pal par pp d0 d1 rows]
    by (intro sorted_all_eq[of _ 0]) (auto simp: assms)
  have a2: "\<forall>p\<in>set (fst (snd ?st)). \<forall>j\<in>set ?js. the (wedgeIndex (meta p)) \<le> j"
    using spec_wedge_index[of _ config pal par pp d0 d1 rows] by (simp add: assms)
  have a3: "\<forall>p\<in>set (fst (snd ?st)). wedgeIndex (meta p) \<noteq> None"
    using spec_wedge_index[of _ config pal par pp d0 d1 rows] by (simp add: assms)
  have a4: "sorted ?js" by simp
  from foldl_spec_place_sorted[OF a1 a2 a3 a4, of config pal par k n base]
  show ?thesis unfolding spec_primary_def by auto
qed

lemma generateWedge_nonempty:
  "0 < rows \<Longrightarrow> fst (generateWedge config m k n rows s) \<noteq> []"
proof -
  assume "0 < rows"
  then have "0 < rows * (rows + 1) div 2" by (cases rows) auto
  then have "0 < length (fst (generateWedge config m k n rows s))"
    by (simp add: generateWedge_result spec_wedge_length length_wedge_cells)
  then show ?thesis by simp
qed

lemma spec_place_front:
  "fst (spec_place config pal par k n base i st) =
     (if i \<in> set (fst st) then (fst st)[spec_j_star (fst st) i := i + k] else fst st)"
  by (simp add: spec_place_def Let_def)

lemma foldl_spec_place_front:
  "fst (foldl (\<lambda>x j. spec_place config pal par k n base j x) st js) =
     foldl (\<lambda>f i. if i \<in> set f then f[spec_j_star f i := i + k] else f) (fst st) js"
  by (induction js arbitrary: st) (simp_all add: spec_place_front)

lemma spec_primary_front_example:
  "fst (spec_primary config pal par 1 3 6 False base) = [6, 7, 8]"
proof -
  have u: "butlast (spec_U 1 3) = [3, 1, 2]" by code_simp
  have c: "nat \<lceil>real 6\<rceil> = 6" by simp
  have "foldl (\<lambda>f i. if i \<in> set f then f[spec_j_star f i := i + 3] else f) [3, 1, 2] [1..<6]
      = [6, 7, 8]"
    by code_simp
  then show ?thesis
    unfolding spec_primary_def foldl_spec_place_front by (simp only: if_False fst_conv u c)
qed

text \<open>The primary pass on the wedge that \<open>generateWedge\<close> returned.\<close>

lemma primary_pass_generateWedge:
  "primary_pass config m k n isOffset (fst (generateWedge config m k n rows s))
       ((snd (generateWedge config m k n rows s))\<lparr>polygons := []\<rparr>) =
     (fst (spec_primary config (pass_palette config s) \<lparr>par_m = m, par_k = k, par_n = n\<rparr>
             m k n isOffset (fst (generateWedge config m k n rows s))),
      (snd (generateWedge config m k n rows s))
        \<lparr>polygons := fst (snd (spec_primary config (pass_palette config s)
             \<lparr>par_m = m, par_k = k, par_n = n\<rparr> m k n isOffset
             (fst (generateWedge config m k n rows s)))),
         console := console (snd (generateWedge config m k n rows s)) @
           map Direction_not_found (snd (snd (spec_primary config (pass_palette config s)
             \<lparr>par_m = m, par_k = k, par_n = n\<rparr> m k n isOffset
             (fst (generateWedge config m k n rows s)))))\<rparr>)"
proof -
  let ?base = "fst (generateWedge config m k n rows s)"
  let ?gs = "snd (generateWedge config m k n rows s)"
  let ?par = "\<lparr>par_m = m, par_k = k, par_n = n\<rparr>"
  let ?s3 = "?gs\<lparr>polygons := []\<rparr>"
  have p1: "palette ?s3 = pass_palette config s" by (simp add: generateWedge_state)
  have p2: "currentParams ?s3 = ?par" by (simp add: generateWedge_state)
  have pp: "primary_pass config m k n isOffset ?base ?s3 =
     (let R = spec_primary config (palette ?s3) (currentParams ?s3) m k n isOffset ?base
      in (fst R, ?s3\<lparr>polygons := fst (snd R),
                    console := console ?s3 @ map Direction_not_found (snd (snd R))\<rparr>))"
  proof (rule primary_pass_spec)
    show "length (palette ?s3) = colorCount config" unfolding p1 by simp
    show "polygons ?s3 = []" by simp
    show "?base = spec_wedge config (palette ?s3) (currentParams ?s3)
        (snd (prototile_walk m k n)) (spec_d0 m k n) (spec_d1 k n) rows"
      unfolding p1 p2 by (rule generateWedge_result)
  qed
  show ?thesis unfolding pp p1 p2 by (simp add: Let_def)
qed

text \<open>
  C2. In \<open>generateTiling\<close> the front starts as \<open>U\<close> without its last entry and
  \<open>w_limit\<close> is \<open>n/2\<close> in offset mode and \<open>n\<close> otherwise. The primary pass on the
  base wedge that \<open>generateWedge\<close> returned is the placer of the specification
  (\<open>spec_primary\<close>): it starts with the base wedge as it is (wedge 0, no rotation, no
  shift) and, for \<open>i\<close> from 1 while \<open>i < w_limit\<close>, when \<open>i\<close> occurs in the front it
  takes the smallest index \<open>j_star\<close> with that value, appends the copy of the base wedge
  rotated by \<open>i\<cdot>2\<pi>/n\<close> and then shifted by the sum of the direction vectors of the
  front before \<open>j_star\<close>, with \<open>wedgeIndex\<close> overwritten to \<open>i\<close> and the other
  metadata kept, and writes \<open>i + k\<close> at \<open>j_star\<close>; the wedges skipped are the warnings
  printed. These polygons are the leading part of what \<open>generateTiling\<close> returns (all
  of it without offset); each has a \<open>wedgeIndex\<close>, and it is non-decreasing along the
  list.
\<close>

theorem tiling_placement:
  "front_init m k = butlast (fst (snd (build_sequences m k)))
   \<and> w_limit_of n isOffset = (if isOffset then real n / 2 else real n)
   \<and> (let base = fst (generateWedge config m k n rows s);
           gs = snd (generateWedge config m k n rows s);
           R = spec_primary config (pass_palette config s) \<lparr>par_m = m, par_k = k, par_n = n\<rparr>
                 m k n isOffset base
       in (base \<noteq> [] \<longrightarrow>
             primary_pass config m k n isOffset base (gs\<lparr>polygons := []\<rparr>) =
               (fst R, gs\<lparr>polygons := fst (snd R),
                          console := console gs @ map Direction_not_found (snd (snd R))\<rparr>))
          \<and> take (length (fst (snd R))) (fst (generateTiling config m k n rows isOffset s))
               = fst (snd R)
          \<and> (\<not> isOffset \<longrightarrow> fst (generateTiling config m k n rows isOffset s) = fst (snd R))
          \<and> take (length base) (fst (snd R)) = base
          \<and> sorted (map (\<lambda>p. the (wedgeIndex (meta p))) (fst (snd R)))
          \<and> (\<forall>p\<in>set (fst (snd R)). wedgeIndex (meta p) \<noteq> None))
   \<and> (\<forall>front i. i \<in> set front \<longrightarrow>
          spec_j_star front i < length front \<and> front ! spec_j_star front i = i
          \<and> (\<forall>j < spec_j_star front i. front ! j \<noteq> i))"
proof -
  let ?base = "fst (generateWedge config m k n rows s)"
  let ?gs = "snd (generateWedge config m k n rows s)"
  let ?par = "\<lparr>par_m = m, par_k = k, par_n = n\<rparr>"
  let ?R = "spec_primary config (pass_palette config s) ?par m k n isOffset ?base"
  let ?s3 = "?gs\<lparr>polygons := []\<rparr>"
  have c1: "front_init m k = butlast (fst (snd (build_sequences m k)))"
    by (simp add: front_init_eq build_sequences_eq)
  have c2: "w_limit_of n isOffset = (if isOffset then real n / 2 else real n)"
    by (simp add: w_limit_of_def)
  have b: "?base = spec_wedge config (pass_palette config s) ?par
          (snd (prototile_walk m k n)) (spec_d0 m k n) (spec_d1 k n) rows"
    by (rule generateWedge_result)
  have c3: "primary_pass config m k n isOffset ?base ?s3 =
               (fst ?R, ?gs\<lparr>polygons := fst (snd ?R),
                          console := console ?gs @ map Direction_not_found (snd (snd ?R))\<rparr>)"
    by (rule primary_pass_generateWedge)
  have c4: "take (length (fst (snd ?R))) (fst (generateTiling config m k n rows isOffset s))
               = fst (snd ?R)"
    by (simp add: generateTiling_result Let_def)
  have c5: "\<not> isOffset \<longrightarrow> fst (generateTiling config m k n rows isOffset s) = fst (snd ?R)"
    by (simp add: generateTiling_result Let_def)
  note sp = spec_primary_placed[OF b, of m k n isOffset]
  have c6: "take (length ?base) (fst (snd ?R)) = ?base" using sp by blast
  have c7: "sorted (map (\<lambda>p. the (wedgeIndex (meta p))) (fst (snd ?R)))" using sp by blast
  have c9: "\<forall>p\<in>set (fst (snd ?R)). wedgeIndex (meta p) \<noteq> None" using sp by blast
  have c8: "\<forall>front i. i \<in> set front \<longrightarrow>
          spec_j_star front i < length front \<and> front ! spec_j_star front i = i
          \<and> (\<forall>j < spec_j_star front i. front ! j \<noteq> i)"
    using spec_j_star_least by blast
  show ?thesis
    unfolding Let_def using c1 c2 c3 c4 c5 c6 c7 c8 c9 by blast
qed

theorem tiling_placement_witness:
  "fst (generateWedge TILING_CONFIG 1 3 6 1 initial_state) \<noteq> []
   \<and> front_init 1 3 = [3, 1, 2]
   \<and> (1::nat) \<in> set [3, 1, 2]
   \<and> spec_j_star [3, 1, 2] 1 < length [3, 1, 2::nat]
   \<and> fst (primary_pass TILING_CONFIG 1 3 6 False
        (fst (generateWedge TILING_CONFIG 1 3 6 1 initial_state))
        ((snd (generateWedge TILING_CONFIG 1 3 6 1 initial_state))\<lparr>polygons := []\<rparr>)) = [6, 7, 8]
   \<and> \<not> False
   \<and> fst (generateTiling TILING_CONFIG 1 3 6 1 False initial_state) =
       fst (snd (spec_primary TILING_CONFIG (pass_palette TILING_CONFIG initial_state)
                   \<lparr>par_m = 1, par_k = 3, par_n = 6\<rparr> 1 3 6 False
                   (fst (generateWedge TILING_CONFIG 1 3 6 1 initial_state))))"
proof -
  have ne: "fst (generateWedge TILING_CONFIG 1 3 6 1 initial_state) \<noteq> []"
    by (rule generateWedge_nonempty) simp
  have f: "front_init 1 3 = [3, 1, 2]" by code_simp
  have m: "(1::nat) \<in> set [3, 1, 2]" by simp
  have nf: "\<not> False" by simp
  note t = tiling_placement[of 1 3 6 False TILING_CONFIG 1 initial_state, unfolded Let_def]
  note t3 = t[THEN conjunct2, THEN conjunct2, THEN conjunct1, THEN conjunct1, rule_format, OF ne]
  note t5 = mp[OF t[THEN conjunct2, THEN conjunct2, THEN conjunct1, THEN conjunct2,
                    THEN conjunct2, THEN conjunct1] nf]
  note t8 = t[THEN conjunct2, THEN conjunct2, THEN conjunct2, rule_format, OF m]
  have j: "spec_j_star [3, 1, 2] 1 < length [3, 1, 2::nat]" by (rule t8[THEN conjunct1])
  have p: "fst (primary_pass TILING_CONFIG 1 3 6 False
        (fst (generateWedge TILING_CONFIG 1 3 6 1 initial_state))
        ((snd (generateWedge TILING_CONFIG 1 3 6 1 initial_state))\<lparr>polygons := []\<rparr>)) = [6, 7, 8]"
    unfolding t3 fst_conv by (rule spec_primary_front_example)
  show ?thesis by (intro conjI ne f m j p nf t5)
qed

subsection \<open>The offset pass\<close>

lemma primary_polygons:
  "polygons (snd (primary_pass config m k n isOffset (fst (generateWedge config m k n rows s))
       ((snd (generateWedge config m k n rows s))\<lparr>polygons := []\<rparr>))) =
     fst (snd (spec_primary config (pass_palette config s) \<lparr>par_m = m, par_k = k, par_n = n\<rparr>
             m k n isOffset (fst (generateWedge config m k n rows s))))"
  by (simp add: primary_pass_generateWedge)

text \<open>
  C4. In offset mode the result of \<open>generateTiling\<close> is the list \<open>P\<close> of the primary
  pass followed by one polygon for each polygon of \<open>P\<close>, in the same order, so it has
  twice the length. The copy of a polygon has every point \<open>pt\<close> of its path replaced by
  \<open>2\<cdot>pivot - pt\<close>, with \<open>pivot = getVector(0)/2\<close>; it has the same fill colour and
  stroke; its metadata has \<open>isCopy = true\<close> and the source's \<open>wedgeIndex\<close> plus 10000,
  and the same \<open>tileIndex\<close>, \<open>r\<close> and \<open>c\<close>.
\<close>

theorem offset_reflection:
  "(let base = fst (generateWedge config m k n rows s);
        gs = snd (generateWedge config m k n rows s);
        P = (if base = [] then []
             else polygons (snd (primary_pass config m k n True base (gs\<lparr>polygons := []\<rparr>))));
        res = fst (generateTiling config m k n rows True s);
        pivot = (fst (getVector n 0) / 2, snd (getVector n 0) / 2)
    in length res = 2 * length P
       \<and> take (length P) res = P
       \<and> (\<forall>i < length P.
             path (res ! (length P + i)) =
               map (\<lambda>pt. (2 * fst pivot - fst pt, 2 * snd pivot - snd pt)) (path (P ! i))
             \<and> color (res ! (length P + i)) = color (P ! i)
             \<and> stroke (res ! (length P + i)) = stroke (P ! i)
             \<and> isCopy (meta (res ! (length P + i))) = Some True
             \<and> (\<exists>w. wedgeIndex (meta (P ! i)) = Some w
                    \<and> wedgeIndex (meta (res ! (length P + i))) = Some (w + 10000))
             \<and> tileIndex (meta (res ! (length P + i))) = tileIndex (meta (P ! i))
             \<and> meta_r (meta (res ! (length P + i))) = meta_r (meta (P ! i))
             \<and> meta_c (meta (res ! (length P + i))) = meta_c (meta (P ! i))))"
proof -
  let ?base = "fst (generateWedge config m k n rows s)"
  let ?gs = "snd (generateWedge config m k n rows s)"
  let ?par = "\<lparr>par_m = m, par_k = k, par_n = n\<rparr>"
  let ?Q = "fst (snd (spec_primary config (pass_palette config s) ?par m k n True ?base))"
  let ?P = "if ?base = [] then []
            else polygons (snd (primary_pass config m k n True ?base (?gs\<lparr>polygons := []\<rparr>)))"
  let ?pivot = "(fst (getVector n 0) / 2, snd (getVector n 0) / 2)"
  let ?res = "fst (generateTiling config m k n rows True s)"
  have P: "?P = ?Q"
    by (simp add: primary_pass_generateWedge spec_primary_empty_base)
  have res: "?res = ?Q @ map (reflected_poly ?pivot) ?Q"
    by (simp add: generateTiling_result Let_def)
  have b: "?base = spec_wedge config (pass_palette config s) ?par
          (snd (prototile_walk m k n)) (spec_d0 m k n) (spec_d1 k n) rows"
    by (rule generateWedge_result)
  have idx: "\<forall>p\<in>set ?Q. wedgeIndex (meta p) \<noteq> None"
    using spec_primary_placed[OF b, of m k n True] by blast
  have nth: "?res ! (length ?Q + i) = reflected_poly ?pivot (?Q ! i)" if "i < length ?Q" for i
    using that unfolding res by (simp add: nth_append)
  have main: "length ?res = 2 * length ?Q \<and> take (length ?Q) ?res = ?Q
       \<and> (\<forall>i < length ?Q.
             path (?res ! (length ?Q + i)) =
               map (\<lambda>pt. (2 * fst ?pivot - fst pt, 2 * snd ?pivot - snd pt)) (path (?Q ! i))
             \<and> color (?res ! (length ?Q + i)) = color (?Q ! i)
             \<and> stroke (?res ! (length ?Q + i)) = stroke (?Q ! i)
             \<and> isCopy (meta (?res ! (length ?Q + i))) = Some True
             \<and> (\<exists>w. wedgeIndex (meta (?Q ! i)) = Some w
                    \<and> wedgeIndex (meta (?res ! (length ?Q + i))) = Some (w + 10000))
             \<and> tileIndex (meta (?res ! (length ?Q + i))) = tileIndex (meta (?Q ! i))
             \<and> meta_r (meta (?res ! (length ?Q + i))) = meta_r (meta (?Q ! i))
             \<and> meta_c (meta (?res ! (length ?Q + i))) = meta_c (meta (?Q ! i)))"
  proof (intro conjI allI impI)
    show "length ?res = 2 * length ?Q" unfolding res by simp
    show "take (length ?Q) ?res = ?Q" unfolding res by simp
  next
    fix i assume i: "i < length ?Q"
    have "wedgeIndex (meta (?Q ! i)) \<noteq> None"
      using idx nth_mem[OF i] by blast
    then obtain w where w: "wedgeIndex (meta (?Q ! i)) = Some w"
      by (cases "wedgeIndex (meta (?Q ! i))") simp_all
    show "path (?res ! (length ?Q + i)) =
               map (\<lambda>pt. (2 * fst ?pivot - fst pt, 2 * snd ?pivot - snd pt)) (path (?Q ! i))"
      unfolding nth[OF i] by (simp add: reflected_poly_def)
    show "color (?res ! (length ?Q + i)) = color (?Q ! i)"
      unfolding nth[OF i] by (simp add: reflected_poly_def)
    show "stroke (?res ! (length ?Q + i)) = stroke (?Q ! i)"
      unfolding nth[OF i] by (simp add: reflected_poly_def)
    show "isCopy (meta (?res ! (length ?Q + i))) = Some True"
      unfolding nth[OF i] by (simp add: reflected_poly_def)
    show "\<exists>w. wedgeIndex (meta (?Q ! i)) = Some w
                    \<and> wedgeIndex (meta (?res ! (length ?Q + i))) = Some (w + 10000)"
      unfolding nth[OF i] using w by (simp add: reflected_poly_def)
    show "tileIndex (meta (?res ! (length ?Q + i))) = tileIndex (meta (?Q ! i))"
      unfolding nth[OF i] by (simp add: reflected_poly_def)
    show "meta_r (meta (?res ! (length ?Q + i))) = meta_r (meta (?Q ! i))"
      unfolding nth[OF i] by (simp add: reflected_poly_def)
    show "meta_c (meta (?res ! (length ?Q + i))) = meta_c (meta (?Q ! i))"
      unfolding nth[OF i] by (simp add: reflected_poly_def)
  qed
  show ?thesis unfolding Let_def P by (rule main)
qed


lemma prefix_nonempty: "take (length b) P = b \<Longrightarrow> b \<noteq> [] \<Longrightarrow> 0 < length P"
  by (cases P) auto

theorem offset_reflection_witness:
  "fst (generateWedge TILING_CONFIG 1 3 4 1 initial_state) \<noteq> []
   \<and> 0 < length (polygons (snd (primary_pass TILING_CONFIG 1 3 4 True
          (fst (generateWedge TILING_CONFIG 1 3 4 1 initial_state))
          ((snd (generateWedge TILING_CONFIG 1 3 4 1 initial_state))\<lparr>polygons := []\<rparr>))))
   \<and> length (fst (generateTiling TILING_CONFIG 1 3 4 1 True initial_state)) = 2 * length (polygons (snd (primary_pass TILING_CONFIG 1 3 4 True
          (fst (generateWedge TILING_CONFIG 1 3 4 1 initial_state))
          ((snd (generateWedge TILING_CONFIG 1 3 4 1 initial_state))\<lparr>polygons := []\<rparr>))))
   \<and> isCopy (meta ((fst (generateTiling TILING_CONFIG 1 3 4 1 True initial_state)) ! (length (polygons (snd (primary_pass TILING_CONFIG 1 3 4 True
          (fst (generateWedge TILING_CONFIG 1 3 4 1 initial_state))
          ((snd (generateWedge TILING_CONFIG 1 3 4 1 initial_state))\<lparr>polygons := []\<rparr>)))) + 0))) = Some True"
proof -
  let ?base = "fst (generateWedge TILING_CONFIG 1 3 4 1 initial_state)"
  let ?P = "(polygons (snd (primary_pass TILING_CONFIG 1 3 4 True
          (fst (generateWedge TILING_CONFIG 1 3 4 1 initial_state))
          ((snd (generateWedge TILING_CONFIG 1 3 4 1 initial_state))\<lparr>polygons := []\<rparr>))))"
  have ne: "?base \<noteq> []" by (rule generateWedge_nonempty) simp
  have b: "?base = spec_wedge TILING_CONFIG (pass_palette TILING_CONFIG initial_state)
          \<lparr>par_m = 1, par_k = 3, par_n = 4\<rparr>
          (snd (prototile_walk 1 3 4)) (spec_d0 1 3 4) (spec_d1 3 4) 1"
    by (rule generateWedge_result)
  have pq: "?P = fst (snd (spec_primary TILING_CONFIG (pass_palette TILING_CONFIG initial_state)
          \<lparr>par_m = 1, par_k = 3, par_n = 4\<rparr> 1 3 4 True ?base))"
    by (rule primary_polygons)
  have tk: "take (length ?base) ?P = ?base"
    unfolding pq using spec_primary_placed[OF b, of 1 3 4 True] by (elim conjE)
  have pos: "0 < length ?P" by (rule prefix_nonempty[OF tk ne])
  note t = offset_reflection[of TILING_CONFIG 1 3 4 1 initial_state, unfolded Let_def if_not_P[OF ne]]
  note t1 = t[THEN conjunct1]
  note t3 = t[THEN conjunct2, THEN conjunct2, rule_format, OF pos]
  show ?thesis
    by (intro conjI ne pos t1 t3[THEN conjunct2, THEN conjunct2, THEN conjunct2, THEN conjunct1])
qed

subsection \<open>What the result depends on\<close>

lemma spec_wedge_copy_geom:
  assumes "map (\<lambda>p. (path p, stroke p, meta p)) base = map (\<lambda>p. (path p, stroke p, meta p)) base'"
  shows "map (\<lambda>p. (path p, stroke p, meta p)) (spec_wedge_copy config pal par n i off base) =
         map (\<lambda>p. (path p, stroke p, meta p)) (spec_wedge_copy config' pal' par' n i off base')"
proof -
  let ?G = "\<lambda>g. (map (\<lambda>pt. translate_point off (rotate_point (real i * (2 * pi / real n)) pt)) (fst g),
                  ''#888'', (snd (snd g))\<lparr>wedgeIndex := Some i\<rparr>)"
  have e: "map (\<lambda>p. (path p, stroke p, meta p)) (spec_wedge_copy c p b n i off bs) =
      map ?G (map (\<lambda>p. (path p, stroke p, meta p)) bs)" for c p b bs
    by (simp add: spec_wedge_copy_def)
  show ?thesis unfolding e assms by (rule refl)
qed

lemma spec_place_geom:
  assumes "map (\<lambda>p. (path p, stroke p, meta p)) base = map (\<lambda>p. (path p, stroke p, meta p)) base'"
    and "fst st = fst st'"
    and "map (\<lambda>p. (path p, stroke p, meta p)) (fst (snd st)) =
         map (\<lambda>p. (path p, stroke p, meta p)) (fst (snd st'))"
  shows "fst (spec_place config pal par k n base i st) =
         fst (spec_place config' pal' par' k n base' i st')
       \<and> map (\<lambda>p. (path p, stroke p, meta p)) (fst (snd (spec_place config pal par k n base i st))) =
         map (\<lambda>p. (path p, stroke p, meta p)) (fst (snd (spec_place config' pal' par' k n base' i st')))"
  using assms spec_wedge_copy_geom[OF assms(1), of config pal par n i _ config' pal' par']
  by (simp add: spec_place_def Let_def)

lemma foldl_spec_place_geom:
  assumes "map (\<lambda>p. (path p, stroke p, meta p)) base = map (\<lambda>p. (path p, stroke p, meta p)) base'"
    and "fst st = fst st'"
    and "map (\<lambda>p. (path p, stroke p, meta p)) (fst (snd st)) =
         map (\<lambda>p. (path p, stroke p, meta p)) (fst (snd st'))"
  shows "map (\<lambda>p. (path p, stroke p, meta p))
           (fst (snd (foldl (\<lambda>x j. spec_place config pal par k n base j x) st js))) =
         map (\<lambda>p. (path p, stroke p, meta p))
           (fst (snd (foldl (\<lambda>x j. spec_place config' pal' par' k n base' j x) st' js)))"
  using assms(2,3)
proof (induction js arbitrary: st st')
  case Nil
  then show ?case by simp
next
  case (Cons j js)
  note sp = spec_place_geom[OF assms(1) Cons.prems, of config pal par k n j config' pal' par']
  show ?case
    using Cons.IH[OF sp[THEN conjunct1] sp[THEN conjunct2]] by simp
qed

lemma spec_wedge_geom:
  "map (\<lambda>p. (path p, stroke p, meta p)) (spec_wedge config pal par pp d0 d1 rows) =
   map (\<lambda>p. (path p, stroke p, meta p)) (spec_wedge config' pal' par' pp d0 d1 rows)"
  by (simp add: spec_wedge_def split_def)

lemma reflected_geom:
  assumes "map (\<lambda>p. (path p, stroke p, meta p)) P = map (\<lambda>p. (path p, stroke p, meta p)) P'"
  shows "map (\<lambda>p. (path p, stroke p, meta p)) (map (reflected_poly pv) P) =
         map (\<lambda>p. (path p, stroke p, meta p)) (map (reflected_poly pv) P')"
proof -
  let ?G = "\<lambda>g. (map (\<lambda>pt. (2 * fst pv - fst pt, 2 * snd pv - snd pt)) (fst g), fst (snd g),
      (snd (snd g))\<lparr>isCopy := Some True,
         wedgeIndex := (case wedgeIndex (snd (snd g)) of Some w \<Rightarrow> Some (w + 10000) | None \<Rightarrow> None)\<rparr>)"
  have e: "map (\<lambda>p. (path p, stroke p, meta p)) (map (reflected_poly pv) Q) =
      map ?G (map (\<lambda>p. (path p, stroke p, meta p)) Q)" for Q
    by (simp add: reflected_poly_def)
  show ?thesis unfolding e assms by (rule refl)
qed

lemma generateTiling_geom:
  "map (\<lambda>p. (path p, stroke p, meta p)) (fst (generateTiling config m k n rows isOffset s)) =
   map (\<lambda>p. (path p, stroke p, meta p)) (fst (generateTiling config' m k n rows isOffset s'))"
proof -
  let ?par = "\<lparr>par_m = m, par_k = k, par_n = n\<rparr>"
  let ?base = "fst (generateWedge config m k n rows s)"
  let ?base' = "fst (generateWedge config' m k n rows s')"
  let ?Q = "fst (snd (spec_primary config (pass_palette config s) ?par m k n isOffset ?base))"
  let ?Q' = "fst (snd (spec_primary config' (pass_palette config' s') ?par m k n isOffset ?base'))"
  have b: "map (\<lambda>p. (path p, stroke p, meta p)) ?base = map (\<lambda>p. (path p, stroke p, meta p)) ?base'"
    unfolding generateWedge_result by (rule spec_wedge_geom)
  have q: "map (\<lambda>p. (path p, stroke p, meta p)) ?Q = map (\<lambda>p. (path p, stroke p, meta p)) ?Q'"
    unfolding spec_primary_def
    by (rule foldl_spec_place_geom[OF b]) (simp_all add: b)
  show ?thesis
    unfolding generateTiling_result Let_def
    using q reflected_geom[OF q] by (cases isOffset) simp_all
qed

lemma generateTiling_paletteType:
  assumes "paletteType s = paletteType s'"
  shows "fst (generateTiling config m k n rows isOffset s) =
         fst (generateTiling config m k n rows isOffset s')"
proof -
  have p: "pass_palette config s = pass_palette config s'"
    using assms by (simp add: pass_palette_def)
  have b: "fst (generateWedge config m k n rows s) = fst (generateWedge config m k n rows s')"
    unfolding generateWedge_result p by (rule refl)
  show ?thesis unfolding generateTiling_result p b by (rule refl)
qed


lemma prefix_hd: "take (length b) Q = b \<Longrightarrow> b \<noteq> [] \<Longrightarrow> hd (Q @ X) = hd b"
  by (cases Q; cases b) auto

lemma wedge_cells_first: "0 < rows \<Longrightarrow> wedge_cells rows ! 0 = (0, 0)"
  by (simp add: wedge_cells_def upt_conv_Cons)

lemma generateTiling_first_color:
  assumes "0 < rows"
  shows "color (hd (fst (generateTiling config m k n rows isOffset s))) =
     palette_at (pass_palette config s)
       (getColorIndex config \<lparr>par_m = m, par_k = k, par_n = n\<rparr> 0 0 0)"
proof -
  let ?par = "\<lparr>par_m = m, par_k = k, par_n = n\<rparr>"
  let ?base = "fst (generateWedge config m k n rows s)"
  let ?Q = "fst (snd (spec_primary config (pass_palette config s) ?par m k n isOffset ?base))"
  have ne: "?base \<noteq> []" by (rule generateWedge_nonempty[OF assms])
  have b: "?base = spec_wedge config (pass_palette config s) ?par
          (snd (prototile_walk m k n)) (spec_d0 m k n) (spec_d1 k n) rows"
    by (rule generateWedge_result)
  have tk: "take (length ?base) ?Q = ?base"
    using spec_primary_placed[OF b, of m k n isOffset] by (elim conjE)
  have "0 < length ?base" using ne by simp
  then have pos: "0 < length (wedge_cells rows)"
    unfolding b spec_wedge_length .
  have "hd (fst (generateTiling config m k n rows isOffset s)) = hd ?base"
    unfolding generateTiling_result Let_def
    using prefix_hd[OF tk ne, of "[]"] prefix_hd[OF tk ne] by (cases isOffset) simp_all
  also have "\<dots> = ?base ! 0" using ne by (simp add: hd_conv_nth)
  finally show ?thesis
    unfolding b using pos by (simp add: spec_wedge_nth wedge_cells_first[OF assms])
qed

text \<open>
  C7 (as amended). The polygon list \<open>generateTiling\<close> returns is a function of its
  arguments, the configuration \<open>TILING_CONFIG\<close> and the palette type the generator has
  stored: two generator states with the same palette type give the same list. The number
  and order of the polygons, their paths, strokes and metadata depend on the arguments
  \<open>(m, k, n, rows, isOffset)\<close> alone, whatever the configuration and the state.
\<close>

theorem tiling_deterministic:
  "(paletteType s = paletteType s' \<longrightarrow>
      fst (generateTiling config m k n rows isOffset s) =
      fst (generateTiling config m k n rows isOffset s'))
   \<and> length (fst (generateTiling config m k n rows isOffset s)) =
      length (fst (generateTiling config' m k n rows isOffset s'))
   \<and> map path (fst (generateTiling config m k n rows isOffset s)) =
      map path (fst (generateTiling config' m k n rows isOffset s'))
   \<and> map stroke (fst (generateTiling config m k n rows isOffset s)) =
      map stroke (fst (generateTiling config' m k n rows isOffset s'))
   \<and> map meta (fst (generateTiling config m k n rows isOffset s)) =
      map meta (fst (generateTiling config' m k n rows isOffset s'))"
proof -
  let ?A = "fst (generateTiling config m k n rows isOffset s)"
  let ?B = "fst (generateTiling config' m k n rows isOffset s')"
  have g: "map (\<lambda>p. (path p, stroke p, meta p)) ?A = map (\<lambda>p. (path p, stroke p, meta p)) ?B"
    by (rule generateTiling_geom)
  have p1: "map path P = map fst (map (\<lambda>p. (path p, stroke p, meta p)) P)" for P :: "polygon list"
    by (simp add: comp_def)
  have p2: "map stroke P = map (\<lambda>g. fst (snd g)) (map (\<lambda>p. (path p, stroke p, meta p)) P)"
    for P :: "polygon list"
    by (simp add: comp_def)
  have p3: "map meta P = map (\<lambda>g. snd (snd g)) (map (\<lambda>p. (path p, stroke p, meta p)) P)"
    for P :: "polygon list"
    by (simp add: comp_def)
  have c1: "paletteType s = paletteType s' \<longrightarrow>
      ?A = fst (generateTiling config m k n rows isOffset s')"
    using generateTiling_paletteType[of s s' config m k n rows isOffset] by blast
  have c2: "length ?A = length ?B" using arg_cong[OF g, of length] by simp
  have c3: "map path ?A = map path ?B" unfolding p1[of ?A] p1[of ?B] g by (rule refl)
  have c4: "map stroke ?A = map stroke ?B" unfolding p2[of ?A] p2[of ?B] g by (rule refl)
  have c5: "map meta ?A = map meta ?B" unfolding p3[of ?A] p3[of ?B] g by (rule refl)
  show ?thesis by (intro conjI c1 c2 c3 c4 c5)
qed

theorem tiling_deterministic_witness:
  "paletteType initial_state = paletteType (initial_state\<lparr>console := [Parameter_error]\<rparr>)
   \<and> fst (generateTiling TILING_CONFIG 3 7 14 2 False initial_state) =
     fst (generateTiling TILING_CONFIG 3 7 14 2 False
            (initial_state\<lparr>console := [Parameter_error]\<rparr>))"
proof -
  have h: "paletteType initial_state = paletteType (initial_state\<lparr>console := [Parameter_error]\<rparr>)"
    by simp
  note t = tiling_deterministic[of initial_state "initial_state\<lparr>console := [Parameter_error]\<rparr>"
      TILING_CONFIG 3 7 14 2 False TILING_CONFIG, THEN conjunct1, rule_format, OF h]
  show ?thesis by (intro conjI h t)
qed

text \<open>
  The same arguments and the same configuration, but the palette type \<open>'gray'\<close> stored
  (as \<open>generatePalette(count, 'gray')\<close> leaves it) instead of \<open>'color'\<close>: the first
  polygon is filled \<open>hsla(0, 0%, 25%, 0.6)\<close> instead of \<open>hsla(0, 70%, 60%, 0.6)\<close>, so
  the lists differ.
\<close>

theorem tiling_state_counterexample:
  "fst (generateTiling TILING_CONFIG 1 3 6 1 False initial_state) \<noteq>
   fst (generateTiling TILING_CONFIG 1 3 6 1 False (initial_state\<lparr>paletteType := ''gray''\<rparr>))"
proof
  assume e: "fst (generateTiling TILING_CONFIG 1 3 6 1 False initial_state) =
    fst (generateTiling TILING_CONFIG 1 3 6 1 False (initial_state\<lparr>paletteType := ''gray''\<rparr>))"
  have i: "getColorIndex TILING_CONFIG \<lparr>par_m = 1, par_k = 3, par_n = 6\<rparr> 0 0 0 = 0"
    by (simp add: getColorIndex_def TILING_CONFIG_def empty_rule_def Let_def)
  have c1: "palette_at (pass_palette TILING_CONFIG initial_state) 0 = Hsla_rainbow 0"
    by (simp add: palette_at_def pass_palette_def palette_entry_def TILING_CONFIG_def
          initial_state_def Let_def)
  have c2: "palette_at (pass_palette TILING_CONFIG (initial_state\<lparr>paletteType := ''gray''\<rparr>)) 0
      = Hsla_gray 25"
    by (simp add: palette_at_def pass_palette_def palette_entry_def TILING_CONFIG_def
          initial_state_def Let_def)
  have "color (hd (fst (generateTiling TILING_CONFIG 1 3 6 1 False initial_state))) =
      color (hd (fst (generateTiling TILING_CONFIG 1 3 6 1 False
                        (initial_state\<lparr>paletteType := ''gray''\<rparr>))))"
    by (simp only: e)
  then have "Hsla_rainbow 0 = Hsla_gray 25"
    by (simp only: generateTiling_first_color[of 1, OF zero_less_one] i c1 c2)
  then show False by simp
qed

subsection \<open>The parameter check\<close>

lemma spec_primary_length_example:
  "length (fst (snd (spec_primary config pal par 2 3 2 False base))) = 2 * length base"
proof -
  have u: "butlast (spec_U 2 3) = [3, 2, 1]" by code_simp
  have c1: "nat \<lceil>real 2\<rceil> = 2" by simp
  have c2: "[1..<2] = [1::nat]" by code_simp
  have m: "(1::nat) \<in> set [3, 2, 1]" by simp
  show ?thesis
    unfolding spec_primary_def if_False c1 c2 u
    by (simp add: spec_place_def Let_def del: One_nat_def)
qed

text \<open>
  C1 says that a call with \<open>n < k\<close> aborts and returns an empty or failure result. The
  code prints the error (twice) and goes on. At \<open>(m, k, n) = (2, 3, 2)\<close>:
  \<open>generatePrototile\<close> returns one polygon with a path of nine points,
  \<open>generateWedge\<close> with two rows returns three polygons and \<open>generateTiling\<close> with
  two rows and no offset returns six.
\<close>

theorem prototile_no_abort:
  "(2::nat) < 3
   \<and> length (fst (generatePrototile 2 3 2 initial_state)) = 1
   \<and> length (path (hd (fst (generatePrototile 2 3 2 initial_state)))) = 9
   \<and> console (snd (generatePrototile 2 3 2 initial_state)) = [Parameter_error, Parameter_error]
   \<and> length (fst (generateWedge TILING_CONFIG 2 3 2 2 initial_state)) = 3
   \<and> length (fst (generateTiling TILING_CONFIG 2 3 2 2 False initial_state)) = 6"
proof (intro conjI)
  show "(2::nat) < 3" by simp
  show "length (fst (generatePrototile 2 3 2 initial_state)) = 1"
    by (simp add: generatePrototile_result)
  have l: "length (spec_L 2 3) = 4" and u: "length (spec_U 2 3) = 4" by code_simp+
  show "length (path (hd (fst (generatePrototile 2 3 2 initial_state)))) = 9"
    by (simp add: prototile_path_eq prototile_walk_length l u)
  show "console (snd (generatePrototile 2 3 2 initial_state)) = [Parameter_error, Parameter_error]"
    by (simp add: generatePrototile_state initial_state_def)
  show w: "length (fst (generateWedge TILING_CONFIG 2 3 2 2 initial_state)) = 3"
    by (simp add: generateWedge_result spec_wedge_length length_wedge_cells)
  show "length (fst (generateTiling TILING_CONFIG 2 3 2 2 False initial_state)) = 6"
    unfolding generateTiling_result Let_def if_False spec_primary_length_example w by simp
qed

end
